theory Spec2Isabelle
  imports Complex_Main "HOL-Library.AList" "HOL-Library.Log_Nat"
begin

section \<open>The unlock indicator of i3lock (\<^verbatim>\<open>unlock_indicator.c\<close>)\<close>

text \<open>
  A shallow embedding of \<^verbatim>\<open>src/unlock_indicator.c\<close>. C strings and buffers are lists of
  bytes, pointers into a buffer are integer offsets from its start, and every store or
  load outside the buffer, like every overflow of an \<^verbatim>\<open>int\<close>, makes the function return
  \<open>None\<close>. The Cairo and XCB libraries are not part of the program: the calls the program
  makes are recorded in the order it makes them, and what the calls do to a pixmap is a
  parameter of the model.
\<close>

subsection \<open>C strings and byte buffers\<close>

definition NUL :: char where
  "NUL = CHR 0x00"

definition INT_MAX :: int where
  "INT_MAX = 2147483647"

text \<open>The C string held in a byte list: the bytes before the first NUL.\<close>

definition cstr :: "string \<Rightarrow> string" where
  "cstr s = takeWhile (\<lambda>c. c \<noteq> NUL) s"

definition strlen :: "string \<Rightarrow> nat" where
  "strlen s = length (cstr s)"

text \<open>Loads and stores at an offset of a buffer; outside the buffer they fail.\<close>

definition peek :: "string \<Rightarrow> int \<Rightarrow> char option" where
  "peek buf p = (if 0 \<le> p \<and> p < int (length buf) then Some (buf ! nat p) else None)"

definition poke :: "string \<Rightarrow> int \<Rightarrow> char \<Rightarrow> string option" where
  "poke buf p c = (if 0 \<le> p \<and> p < int (length buf) then Some (buf[nat p := c]) else None)"

fun store :: "string \<Rightarrow> int \<Rightarrow> string \<Rightarrow> string option" where
  "store buf p [] = Some buf"
| "store buf p (c # cs) =
     (case poke buf p c of None \<Rightarrow> None | Some buf' \<Rightarrow> store buf' (p + 1) cs)"

text \<open>\<^verbatim>\<open>strcpy(buf + p, src)\<close>: the bytes of the string and its terminating NUL.\<close>

definition strcpy :: "string \<Rightarrow> int \<Rightarrow> string \<Rightarrow> string option" where
  "strcpy buf p src = store buf p (cstr src @ [NUL])"

subsection \<open>The glyph sequence builder: \<^verbatim>\<open>string_repeat\<close> (lines 87 to 98)\<close>

text \<open>
  The loop \<^verbatim>\<open>while (pa >= dest) *pa-- = *pb--;\<close> with \<open>pa\<close> and \<open>pb\<close> as offsets from \<open>dest\<close>:
  it ends when \<open>pa\<close> is the offset \<open>-1\<close>. The string \<open>str\<close> lies outside the destination.
\<close>

function copy_down :: "string \<Rightarrow> int \<Rightarrow> int \<Rightarrow> string option" where
  "copy_down buf pa pb =
     (if pa \<ge> 0 then
        (case peek buf pb of
           None \<Rightarrow> None
         | Some c \<Rightarrow>
             (case poke buf pa c of
                None \<Rightarrow> None
              | Some buf' \<Rightarrow> copy_down buf' (pa - 1) (pb - 1)))
      else Some buf)"
  by pat_completeness auto
termination
  by (relation "measure (\<lambda>(buf, pa, pb). nat (pa + 1))") auto

definition string_repeat :: "string \<Rightarrow> string \<Rightarrow> int \<Rightarrow> string option" where
  "string_repeat dest str n =
     (if n \<le> 0 then Some dest
      else
        let n = (if n \<ge> 64 then 64 else n);
            slen = int (strlen str)
        in if slen > INT_MAX \<or> (n - 1) * slen > INT_MAX then None
           else
             (case strcpy dest ((n - 1) * slen) str of
                None \<Rightarrow> None
              | Some d \<Rightarrow>
                  (let pa = (n - 1) * slen - 1;
                       pb = pa + slen
                   in copy_down d pa pb)))"

text \<open>The string literal of lines 161 and 163: U+2022 in UTF-8.\<close>

definition status_dot :: string where
  "status_dot = [CHR 0xE2, CHR 0x80, CHR 0xA2]"

subsection \<open>Floating point\<close>

text \<open>
  A finite value of type \<^verbatim>\<open>double\<close> or \<^verbatim>\<open>float\<close> is a rational number, and the result of an
  operation of C on such values is the exact result rounded to the nearest value of the
  type, with ties to the even significand: \<open>rnd p\<close> rounds to \<open>p\<close> significant bits, 53
  for \<^verbatim>\<open>double\<close> and 24 for \<^verbatim>\<open>float\<close>. The range of the exponent is left unbounded: the
  numbers of the renderer are far from overflow and underflow. \<open>binade x\<close> is the
  exponent \<open>e\<close> with \<open>2 ^ e \<le> \<bar>x\<bar> < 2 ^ (e + 1)\<close>.
\<close>

definition binade :: "rat \<Rightarrow> int" where
  "binade x =
     (if 1 \<le> \<bar>x\<bar> then int (floorlog 2 (nat \<lfloor>\<bar>x\<bar>\<rfloor>)) - 1
      else - int (floorlog 2 (nat (\<lceil>1 / \<bar>x\<bar>\<rceil> - 1))))"

definition round_even :: "rat \<Rightarrow> int" where
  "round_even y =
     (let f = \<lfloor>y\<rfloor>; r = y - of_int f
      in if r < 1 / 2 then f else if 1 / 2 < r then f + 1 else if even f then f else f + 1)"

definition rnd :: "nat \<Rightarrow> rat \<Rightarrow> rat" where
  "rnd p x =
     (if x = 0 then 0
      else let u = 2 powi (binade x - int p + 1)
           in of_int (round_even (x / u)) * u)"

definition to_double :: "rat \<Rightarrow> rat" where
  "to_double x = rnd 53 x"

definition to_float :: "rat \<Rightarrow> rat" where
  "to_float x = rnd 24 x"

subsection \<open>Program state\<close>

text \<open>
  Modelled from the spec: \<^verbatim>\<open>unlock_indicator.h\<close> is not among the sources. The enumerators
  are the ones the source names, in the order in which the spec's data model lists them;
  the comparisons \<^verbatim>\<open>unlock_state >= STATE_KEY_PRESSED\<close> and
  \<^verbatim>\<open>auth_state > STATE_AUTH_IDLE\<close> compare the enumerators' integer values.
\<close>

datatype unlock_state_t = STATE_STARTED | STATE_KEY_PRESSED | STATE_NOTHING_TO_DELETE

datatype auth_state_t =
  STATE_AUTH_IDLE | STATE_AUTH_VERIFY | STATE_AUTH_LOCK | STATE_AUTH_WRONG
| STATE_I3LOCK_LOCK_FAILED

fun unlock_value :: "unlock_state_t \<Rightarrow> int" where
  "unlock_value STATE_STARTED = 0"
| "unlock_value STATE_KEY_PRESSED = 1"
| "unlock_value STATE_NOTHING_TO_DELETE = 2"

fun auth_value :: "auth_state_t \<Rightarrow> int" where
  "auth_value STATE_AUTH_IDLE = 0"
| "auth_value STATE_AUTH_VERIFY = 1"
| "auth_value STATE_AUTH_LOCK = 2"
| "auth_value STATE_AUTH_WRONG = 3"
| "auth_value STATE_I3LOCK_LOCK_FAILED = 4"

text \<open>
  Modelled from the spec: \<^verbatim>\<open>struct Rect\<close> of \<^verbatim>\<open>randr.h\<close> is not among the sources. A screen
  rectangle has the fields \<open>x\<close>, \<open>y\<close>, \<open>width\<close> and \<open>height\<close>, here integers.
\<close>

record Rect =
  rect_x :: int
  rect_y :: int
  rect_width :: int
  rect_height :: int

type_synonym xcb_pixmap_t = nat
type_synonym xcb_visualtype_t = nat
type_synonym cairo_surface_t = nat

definition XCB_NONE :: xcb_pixmap_t where
  "XCB_NONE = 0"

text \<open>The lines that \<^verbatim>\<open>DEBUG\<close> prints, by call site.\<close>

datatype debug_line =
  Dbg_redraw_screen unlock_state_t auth_state_t
| Dbg_allocating_pixmap nat nat
| Dbg_screen_index_out_of_bounds int int
| Dbg_no_screen_index_given

text \<open>
  The global variables the file reads and writes. \<open>last_resolution\<close> is the pair
  \<^verbatim>\<open>uint32_t last_resolution[2]\<close>; \<open>img\<close> is \<open>None\<close> for the null pointer; \<open>debug_out\<close> is
  what has been printed by \<^verbatim>\<open>DEBUG\<close> so far.
\<close>

record globals =
  debug_mode :: bool
  input_position :: int
  last_input_position :: int
  last_resolution :: "nat \<times> nat"
  unlock_indicator :: bool
  img :: "cairo_surface_t option"
  tile :: bool
  color :: string
  show_on_screen :: int
  xr_screens :: int
  xr_resolutions :: "Rect list"
  vistype :: "xcb_visualtype_t option"
  unlock_state :: unlock_state_t
  auth_state :: auth_state_t
  bg_pixmap :: xcb_pixmap_t
  debug_out :: "debug_line list"

text \<open>
  Modelled from the spec: the macro \<^verbatim>\<open>DEBUG\<close> of \<^verbatim>\<open>i3lock.h\<close> is not among the sources. It
  writes a diagnostic to the debug sink; here it does so when \<open>debug_mode\<close> is set.
\<close>

definition DEBUG :: "debug_line list \<Rightarrow> globals \<Rightarrow> globals" where
  "DEBUG ls g = (if debug_mode g then g\<lparr>debug_out := debug_out g @ ls\<rparr> else g)"

record cairo_text_extents_t =
  ext_x_bearing :: rat
  ext_y_bearing :: rat
  ext_width :: rat
  ext_height :: rat

text \<open>
  What the program takes from its surroundings: the value of \<^verbatim>\<open>get_dpi_value()\<close>, the
  visual of the root screen, the bytes found in a block that \<^verbatim>\<open>malloc\<close> returns, and the
  extents Cairo measures for a text at a given scale in the font the renderer selects.
  \<^verbatim>\<open>malloc\<close> is taken to succeed.
\<close>

record env =
  dpi_value :: int
  root_visual_type :: xcb_visualtype_t
  heap_bytes :: "nat \<Rightarrow> char"
  text_extents :: "rat \<Rightarrow> string \<Rightarrow> cairo_text_extents_t"

definition malloc :: "env \<Rightarrow> nat \<Rightarrow> string" where
  "malloc e n = map (heap_bytes e) [0..<n]"

subsection \<open>Cairo calls\<close>

datatype cairo_source = img_surface cairo_surface_t | output_surface

datatype cairo_call =
  cairo_set_source_rgb rat rat rat
| cairo_rectangle rat rat rat rat
| cairo_fill
| cairo_set_source_surface cairo_source rat rat
| cairo_paint
| cairo_set_source_pattern cairo_surface_t
| cairo_pattern_set_extend_repeat
| cairo_pattern_destroy
| cairo_scale rat rat
| cairo_select_font_face string
| cairo_set_font_size rat
| cairo_move_to rat rat
| cairo_show_text string
| cairo_close_path

text \<open>
  One run of \<^verbatim>\<open>draw_image\<close> issues calls on two contexts: \<open>on_ctx\<close> are the calls on the
  in-memory surface \<^verbatim>\<open>output\<close>, \<open>on_xcb\<close> the calls on the surface of the pixmap.
\<close>

record frame =
  on_ctx :: "cairo_call list"
  on_xcb :: "cairo_call list"

text \<open>The text that a list of calls shows, and the source colour set when it is shown.\<close>

fun shown_text :: "cairo_call list \<Rightarrow> string" where
  "shown_text [] = []"
| "shown_text (cairo_show_text t # cs) = t @ shown_text cs"
| "shown_text (c # cs) = shown_text cs"

fun text_colour :: "(rat \<times> rat \<times> rat) option \<Rightarrow> cairo_call list \<Rightarrow> (rat \<times> rat \<times> rat) option" where
  "text_colour cur [] = None"
| "text_colour cur (cairo_set_source_rgb r g b # cs) = text_colour (Some (r, g, b)) cs"
| "text_colour cur (cairo_show_text t # cs) = cur"
| "text_colour cur (c # cs) = text_colour cur cs"

subsection \<open>The colour parser (lines 123 to 129)\<close>

definition isspace :: "char \<Rightarrow> bool" where
  "isspace c \<longleftrightarrow> c \<in> set [CHR '' '', CHR 0x09, CHR 0x0A, CHR 0x0B, CHR 0x0C, CHR 0x0D]"

definition hex_digit :: "char \<Rightarrow> nat option" where
  "hex_digit c =
     (let k = (of_char c :: nat)
      in if 48 \<le> k \<and> k \<le> 57 then Some (k - 48)
         else if 97 \<le> k \<and> k \<le> 102 then Some (k - 87)
         else if 65 \<le> k \<and> k \<le> 70 then Some (k - 55)
         else None)"

fun hex_digits :: "nat \<Rightarrow> string \<Rightarrow> nat" where
  "hex_digits acc [] = acc"
| "hex_digits acc (c # cs) =
     (case hex_digit c of None \<Rightarrow> acc | Some d \<Rightarrow> hex_digits (16 * acc + d) cs)"

text \<open>
  \<^verbatim>\<open>strtol(s, NULL, 16)\<close> of the C library: white space, an optional sign, an optional
  \<^verbatim>\<open>0x\<close> before a digit, then the longest run of hexadecimal digits; the value is clamped
  to the range of \<^verbatim>\<open>long\<close>.
\<close>

definition strtol16 :: "string \<Rightarrow> int" where
  "strtol16 s =
     (let t = dropWhile isspace (cstr s);
          neg = (t \<noteq> [] \<and> hd t = CHR ''-'');
          u = (if t \<noteq> [] \<and> (hd t = CHR ''-'' \<or> hd t = CHR ''+'') then tl t else t);
          w = (case u of
                 a # b # c # r \<Rightarrow>
                   if a = CHR ''0'' \<and> (b = CHR ''x'' \<or> b = CHR ''X'') \<and> hex_digit c \<noteq> None
                   then c # r else u
               | _ \<Rightarrow> u);
          v = int (hex_digits 0 w)
      in if neg then max (- v) (- (2 ^ 63)) else min v (2 ^ 63 - 1))"

text \<open>\<^verbatim>\<open>color[i]\<close> of the array \<^verbatim>\<open>char color[7]\<close>, whose unused tail is NUL.\<close>

definition color_at :: "string \<Rightarrow> nat \<Rightarrow> char" where
  "color_at c i = (if i < length c then c ! i else NUL)"

text \<open>The three values \<^verbatim>\<open>rgb16\<close>: each \<^verbatim>\<open>long\<close> converted to \<^verbatim>\<open>uint32_t\<close>.\<close>

definition rgb16 :: "string \<Rightarrow> nat \<times> nat \<times> nat" where
  "rgb16 c =
     (let strgroups = [[color_at c 0, color_at c 1, NUL],
                       [color_at c 2, color_at c 3, NUL],
                       [color_at c 4, color_at c 5, NUL]]
      in (nat (strtol16 (strgroups ! 0) mod 2 ^ 32),
          nat (strtol16 (strgroups ! 1) mod 2 ^ 32),
          nat (strtol16 (strgroups ! 2) mod 2 ^ 32)))"

text \<open>The arguments of \<^verbatim>\<open>cairo_set_source_rgb\<close> at line 129.\<close>

definition background_rgb :: "string \<Rightarrow> rat \<times> rat \<times> rat" where
  "background_rgb c =
     (case rgb16 c of
        (r, g, b) \<Rightarrow>
          (to_double (of_nat r / 255), to_double (of_nat g / 255), to_double (of_nat b / 255)))"

subsection \<open>The screen placement (lines 194 to 218)\<close>

text \<open>Division of C on \<^verbatim>\<open>int\<close>: the quotient is truncated towards zero.\<close>

definition c_div :: "int \<Rightarrow> int \<Rightarrow> int" where
  "c_div a b = (if (a < 0) = (b < 0) then \<bar>a\<bar> div \<bar>b\<bar> else - (\<bar>a\<bar> div \<bar>b\<bar>))"

definition array_at :: "'a list \<Rightarrow> int \<Rightarrow> 'a option" where
  "array_at xs i = (if 0 \<le> i \<and> i < int (length xs) then Some (xs ! nat i) else None)"

record placement =
  screen_center_x :: int
  screen_center_y :: int
  screen_offset_x :: int
  screen_offset_y :: int

definition screen_placement ::
  "int \<Rightarrow> Rect list \<Rightarrow> int \<Rightarrow> nat \<times> nat \<Rightarrow> (placement \<times> debug_line list) option" where
  "screen_placement n_screens resolutions on_screen resolution =
     (if n_screens > 0 then
        (let (selected_screen, dbg) =
               (if on_screen \<ge> 0 \<and> on_screen < n_screens then (on_screen, [])
                else if on_screen \<ge> 0 \<and> on_screen \<ge> n_screens
                  then (0, [Dbg_screen_index_out_of_bounds on_screen n_screens])
                else (0, [Dbg_no_screen_index_given]))
         in case array_at resolutions selected_screen of
              None \<Rightarrow> None
            | Some r \<Rightarrow>
                Some (\<lparr>screen_center_x = c_div (rect_width r) 2,
                       screen_center_y = c_div (rect_height r) 2,
                       screen_offset_x = rect_x r,
                       screen_offset_y = rect_y r\<rparr>, dbg))
      else
        Some (\<lparr>screen_center_x = int (fst resolution div 2),
               screen_center_y = int (snd resolution div 2),
               screen_offset_x = 0,
               screen_offset_y = 0\<rparr>, []))"

subsection \<open>The renderer: \<^verbatim>\<open>draw_image\<close> (lines 105 to 237)\<close>

text \<open>The condition of lines 149 and 150.\<close>

definition indicator_drawn :: "globals \<Rightarrow> bool" where
  "indicator_drawn g \<longleftrightarrow>
     unlock_indicator g \<and>
     (unlock_value (unlock_state g) \<ge> unlock_value STATE_KEY_PRESSED \<or>
      auth_value (auth_state g) > auth_value STATE_AUTH_IDLE)"

text \<open>Lines 151 and 152.\<close>

definition remember_input :: "globals \<Rightarrow> globals" where
  "remember_input g =
     (if input_position g > 0 then g\<lparr>last_input_position := input_position g\<rparr> else g)"

text \<open>Lines 157 to 163: the buffer \<^verbatim>\<open>text\<close> after the call of \<^verbatim>\<open>string_repeat\<close>.\<close>

definition indicator_text :: "env \<Rightarrow> globals \<Rightarrow> string option" where
  "indicator_text e g =
     (case strcpy (malloc e 256) 0 [] of
        None \<Rightarrow> None
      | Some text \<Rightarrow>
          if auth_state g = STATE_AUTH_WRONG \<or> auth_state g = STATE_I3LOCK_LOCK_FAILED
          then string_repeat text status_dot (last_input_position g)
          else string_repeat text status_dot (input_position g))"

text \<open>Lines 169 to 189: the \<^verbatim>\<open>switch\<close> sets the source colour, and may empty the text.\<close>

definition auth_switch :: "globals \<Rightarrow> string \<Rightarrow> (string \<times> cairo_call) option" where
  "auth_switch g text =
     (case auth_state g of
        STATE_AUTH_VERIFY \<Rightarrow> Some (text, cairo_set_source_rgb (to_float (84 / 255)) (to_float (110 / 255))
                                     (to_float (122 / 255)))
      | STATE_AUTH_LOCK \<Rightarrow> Some (text, cairo_set_source_rgb (to_float (84 / 255)) (to_float (110 / 255))
                                     (to_float (122 / 255)))
      | STATE_AUTH_WRONG \<Rightarrow>
          if unlock_value (unlock_state g) < unlock_value STATE_KEY_PRESSED
          then Some (text, cairo_set_source_rgb (to_float (255 / 255)) (to_float (83 / 255))
                                     (to_float (112 / 255)))
          else Some (text, cairo_set_source_rgb 1 1 1)
      | STATE_I3LOCK_LOCK_FAILED \<Rightarrow>
          Some (text, cairo_set_source_rgb (to_float (255 / 255)) (to_float (83 / 255))
                                     (to_float (112 / 255)))
      | _ \<Rightarrow>
          (case (if unlock_state g = STATE_NOTHING_TO_DELETE then strcpy text 0 [] else Some text) of
             None \<Rightarrow> None
           | Some text' \<Rightarrow> Some (text', cairo_set_source_rgb 1 1 1)))"

text \<open>
  Lines 151 to 226: the body of the \<^verbatim>\<open>if\<close>, with the calls made on \<^verbatim>\<open>ctx\<close>. The scaling factor
  is that of line 106: the \<^verbatim>\<open>long\<close> of \<^verbatim>\<open>get_dpi_value\<close> is converted to \<^verbatim>\<open>double\<close>, and the
  quotient by \<^verbatim>\<open>96.0\<close> is rounded again.
\<close>

definition draw_indicator :: "env \<Rightarrow> globals \<Rightarrow> (globals \<times> cairo_call list) option" where
  "draw_indicator e g0 =
     (let scaling_factor = to_double (to_double (of_int (dpi_value e)) / 96);
          g = remember_input g0
      in case indicator_text e g of
           None \<Rightarrow> None
         | Some text0 \<Rightarrow>
             (case auth_switch g text0 of
                None \<Rightarrow> None
              | Some (text, set_colour) \<Rightarrow>
                  (case screen_placement (xr_screens g) (xr_resolutions g) (show_on_screen g)
                          (last_resolution g) of
                     None \<Rightarrow> None
                   | Some (p, dbg) \<Rightarrow>
                       (let extents = text_extents e scaling_factor (cstr text);
                            x = to_double
                                  (of_int (screen_offset_x p + screen_center_x p)
                                   - to_double (to_double (ext_width extents / 2)
                                                + ext_x_bearing extents));
                            y = to_double
                                  (of_int (screen_offset_y p + screen_center_y p)
                                   - to_double (to_double (ext_height extents / 2)
                                                + ext_y_bearing extents))
                        in Some (DEBUG dbg g,
                                 [cairo_scale scaling_factor scaling_factor,
                                  cairo_set_source_rgb 0 0 0,
                                  cairo_select_font_face ''sans-serif'',
                                  cairo_set_font_size 80,
                                  set_colour,
                                  cairo_move_to x y,
                                  cairo_show_text (cstr text),
                                  cairo_close_path])))))"

text \<open>Lines 123 to 147: the calls that clear the pixmap and paint the image.\<close>

definition draw_background :: "globals \<Rightarrow> nat \<times> nat \<Rightarrow> cairo_call list" where
  "draw_background g resolution =
     (case background_rgb (color g) of
        (r, gr, b) \<Rightarrow>
          [cairo_set_source_rgb r gr b,
           cairo_rectangle 0 0 (of_nat (fst resolution)) (of_nat (snd resolution)),
           cairo_fill])
     @ (case img g of
          None \<Rightarrow> []
        | Some i \<Rightarrow>
            if \<not> tile g then [cairo_set_source_surface (img_surface i) 0 0, cairo_paint]
            else [cairo_set_source_pattern i,
                  cairo_pattern_set_extend_repeat,
                  cairo_rectangle 0 0 (of_nat (fst resolution)) (of_nat (snd resolution)),
                  cairo_fill,
                  cairo_pattern_destroy])"

text \<open>
  The calls of one run of \<^verbatim>\<open>draw_image\<close> and the globals it leaves; \<open>None\<close> when the run
  stores or loads outside an array.
\<close>

definition draw_image_calls :: "env \<Rightarrow> nat \<times> nat \<Rightarrow> globals \<Rightarrow> (globals \<times> frame) option" where
  "draw_image_calls e resolution g0 =
     (let g = (if vistype g0 = None then g0\<lparr>vistype := Some (root_visual_type e)\<rparr> else g0);
          background = draw_background g resolution;
          composite = [cairo_set_source_surface output_surface 0 0,
                       cairo_rectangle 0 0 (of_nat (fst resolution)) (of_nat (snd resolution)),
                       cairo_fill]
      in case (if indicator_drawn g then draw_indicator e g else Some (g, [])) of
           None \<Rightarrow> None
         | Some (g', calls) \<Rightarrow> Some (g', \<lparr>on_ctx = calls, on_xcb = background @ composite\<rparr>))"

subsection \<open>The X server and the pixmap cache (lines 239 to 281)\<close>

text \<open>
  A pixmap of the server has the size it was created with and its contents, of a type
  \<open>'pix\<close> that the model leaves open. The window shows \<open>win_contents\<close>.
\<close>

record 'pix pixmap =
  pm_size :: "nat \<times> nat"
  pm_contents :: 'pix

record 'pix xserver =
  pixmaps :: "(xcb_pixmap_t \<times> 'pix pixmap) list"
  win_back_pixmap :: xcb_pixmap_t
  win_contents :: "'pix option"

text \<open>
  What Cairo and the server draw: \<open>render\<close> gives the contents of a pixmap after the calls
  of a frame on a surface of the given size, and \<open>solid\<close> the contents of a pixmap filled
  with a colour.
\<close>

record 'pix graphics =
  render :: "nat \<times> nat \<Rightarrow> frame \<Rightarrow> 'pix pixmap \<Rightarrow> 'pix"
  solid :: "nat \<times> nat \<Rightarrow> string \<Rightarrow> 'pix"

definition xcb_generate_id :: "'pix xserver \<Rightarrow> xcb_pixmap_t" where
  "xcb_generate_id srv = Suc (fold max (map fst (pixmaps srv)) 0)"

text \<open>The request fails with \<^verbatim>\<open>BadPixmap\<close>, and changes nothing, for an id that is not a pixmap.\<close>

definition xcb_free_pixmap :: "'pix xserver \<Rightarrow> xcb_pixmap_t \<Rightarrow> 'pix xserver" where
  "xcb_free_pixmap srv p =
     (if p = XCB_NONE \<or> map_of (pixmaps srv) p = None then srv
      else srv\<lparr>pixmaps := AList.delete p (pixmaps srv)\<rparr>)"

text \<open>
  Modelled from the spec: \<^verbatim>\<open>create_bg_pixmap\<close> of \<^verbatim>\<open>xcb.c\<close> is not among the sources. It
  allocates a new backing pixmap at the given resolution and colour.
\<close>

definition create_bg_pixmap ::
  "'pix graphics \<Rightarrow> 'pix xserver \<Rightarrow> nat \<times> nat \<Rightarrow> string \<Rightarrow> xcb_pixmap_t \<times> 'pix xserver" where
  "create_bg_pixmap gfx srv resolution c =
     (let p = xcb_generate_id srv
      in (p, srv\<lparr>pixmaps := (p, \<lparr>pm_size = resolution, pm_contents = solid gfx resolution c\<rparr>)
                                # pixmaps srv\<rparr>))"

text \<open>The effect of the calls of a frame on the pixmap \<open>p\<close> of the server.\<close>

definition paint_pixmap ::
  "'pix graphics \<Rightarrow> nat \<times> nat \<Rightarrow> frame \<Rightarrow> xcb_pixmap_t \<Rightarrow> 'pix xserver \<Rightarrow> 'pix xserver" where
  "paint_pixmap gfx resolution f p srv =
     (case map_of (pixmaps srv) p of
        None \<Rightarrow> srv
      | Some pm \<Rightarrow>
          srv\<lparr>pixmaps := AList.update p (pm\<lparr>pm_contents := render gfx resolution f pm\<rparr>)
                            (pixmaps srv)\<rparr>)"

definition draw_image ::
  "'pix graphics \<Rightarrow> env \<Rightarrow> xcb_pixmap_t \<Rightarrow> nat \<times> nat \<Rightarrow> globals \<times> 'pix xserver
     \<Rightarrow> (globals \<times> 'pix xserver) option" where
  "draw_image gfx e p resolution s =
     (case draw_image_calls e resolution (fst s) of
        None \<Rightarrow> None
      | Some (g, f) \<Rightarrow> Some (g, paint_pixmap gfx resolution f p (snd s)))"

definition free_bg_pixmap :: "globals \<times> 'pix xserver \<Rightarrow> globals \<times> 'pix xserver" where
  "free_bg_pixmap s =
     (case s of (g, srv) \<Rightarrow> (g\<lparr>bg_pixmap := XCB_NONE\<rparr>, xcb_free_pixmap srv (bg_pixmap g)))"

text \<open>
  \<^verbatim>\<open>xcb_change_window_attributes\<close> with \<^verbatim>\<open>XCB_CW_BACK_PIXMAP\<close>, and \<^verbatim>\<open>xcb_clear_area\<close> over
  the whole window, which then shows its background pixmap. The requests take effect
  in the order in which they are made, so \<^verbatim>\<open>xcb_flush\<close> has no counterpart here.
\<close>

definition xcb_change_window_attributes :: "'pix xserver \<Rightarrow> xcb_pixmap_t \<Rightarrow> 'pix xserver" where
  "xcb_change_window_attributes srv p = srv\<lparr>win_back_pixmap := p\<rparr>"

definition xcb_clear_area :: "'pix xserver \<Rightarrow> 'pix xserver" where
  "xcb_clear_area srv =
     srv\<lparr>win_contents := map_option pm_contents (map_of (pixmaps srv) (win_back_pixmap srv))\<rparr>"

definition redraw_screen ::
  "'pix graphics \<Rightarrow> env \<Rightarrow> globals \<times> 'pix xserver \<Rightarrow> (globals \<times> 'pix xserver) option" where
  "redraw_screen gfx e s =
     (case s of (g0, srv0) \<Rightarrow>
        (let g1 = DEBUG [Dbg_redraw_screen (unlock_state g0) (auth_state g0)] g0;
             (g2, srv2) =
               (if bg_pixmap g1 = XCB_NONE then
                  (let g' = DEBUG [Dbg_allocating_pixmap (fst (last_resolution g1))
                                     (snd (last_resolution g1))] g1;
                       (p, srv') = create_bg_pixmap gfx srv0 (last_resolution g') (color g')
                   in (g'\<lparr>bg_pixmap := p\<rparr>, srv'))
                else (g1, srv0))
         in case draw_image gfx e (bg_pixmap g2) (last_resolution g2) (g2, srv2) of
              None \<Rightarrow> None
            | Some (g3, srv3) \<Rightarrow>
                Some (g3, xcb_clear_area (xcb_change_window_attributes srv3 (bg_pixmap g3)))))"

definition clear_indicator ::
  "'pix graphics \<Rightarrow> env \<Rightarrow> globals \<times> 'pix xserver \<Rightarrow> (globals \<times> 'pix xserver) option" where
  "clear_indicator gfx e s =
     (case s of (g, srv) \<Rightarrow>
        redraw_screen gfx e
          (if input_position g = 0 then g\<lparr>unlock_state := STATE_STARTED\<rparr>
           else g\<lparr>unlock_state := STATE_KEY_PRESSED\<rparr>, srv))"

text \<open>The ids and the sizes of the pixmaps that the server holds.\<close>

definition pixmap_sizes :: "'pix xserver \<Rightarrow> (xcb_pixmap_t \<times> (nat \<times> nat)) list" where
  "pixmap_sizes srv = map (\<lambda>(p, pm). (p, pm_size pm)) (pixmaps srv)"

text \<open>
  The comment of lines 120 to 122 relies on this property of Cairo: calls that start by
  filling the whole surface with a colour leave contents that do not depend on what the
  pixmap, of the size of the surface, held before.
\<close>

fun starts_with_clear :: "nat \<times> nat \<Rightarrow> cairo_call list \<Rightarrow> bool" where
  "starts_with_clear res (cairo_set_source_rgb r g b # cairo_rectangle x y w h # cairo_fill # cs) =
     (x = 0 \<and> y = 0 \<and> w = of_nat (fst res) \<and> h = of_nat (snd res))"
| "starts_with_clear res cs = False"

definition clears_first :: "'pix graphics \<Rightarrow> bool" where
  "clears_first gfx \<longleftrightarrow>
     (\<forall>res f pm pm'. starts_with_clear res (on_xcb f) \<and> pm_size pm = res \<and> pm_size pm' = res
        \<longrightarrow> render gfx res f pm = render gfx res f pm')"

subsection \<open>Concrete inputs\<close>

text \<open>An environment and a state on which the theorems below are instantiated.\<close>

definition example_env :: env where
  "example_env =
     \<lparr>dpi_value = 96, root_visual_type = 33, heap_bytes = (\<lambda>i. CHR ''x''),
      text_extents = (\<lambda>sc t. \<lparr>ext_x_bearing = 0, ext_y_bearing = 0,
                                 ext_width = of_nat (length t), ext_height = 10\<rparr>)\<rparr>"

text \<open>
  The state of the scenario of claim C1: a wrong password, a key pressed since, an empty
  input buffer and four characters remembered; one root window of 800 by 600 pixels and
  no information about the screens.
\<close>

definition example_globals :: globals where
  "example_globals =
     \<lparr>debug_mode = False, input_position = 0, last_input_position = 4,
      last_resolution = (800, 600), unlock_indicator = True, img = None, tile = False,
      color = ''a3a3a3'', show_on_screen = - 1, xr_screens = 0, xr_resolutions = [],
      vistype = None, unlock_state = STATE_KEY_PRESSED, auth_state = STATE_AUTH_WRONG,
      bg_pixmap = XCB_NONE, debug_out = []\<rparr>"

text \<open>Two screens side by side, the second one 1281 pixels wide.\<close>

definition example_screens :: "Rect list" where
  "example_screens =
     [\<lparr>rect_x = 0, rect_y = 0, rect_width = 1920, rect_height = 1080\<rparr>,
      \<lparr>rect_x = 1920, rect_y = 56, rect_width = 1281, rect_height = 1024\<rparr>]"

text \<open>
  A rendering in which the contents of a pixmap are the calls that drew them, and a
  server that holds no pixmap yet.
\<close>

definition example_graphics :: "frame graphics" where
  "example_graphics =
     \<lparr>render = (\<lambda>res f pm. f), solid = (\<lambda>res c. \<lparr>on_ctx = [], on_xcb = []\<rparr>)\<rparr>"

definition example_server :: "frame xserver" where
  "example_server = \<lparr>pixmaps = [], win_back_pixmap = XCB_NONE, win_contents = None\<rparr>"

text \<open>A server whose pixmap 7 was created for a root window of 640 by 480 pixels.\<close>

definition stale_server :: "frame xserver" where
  "stale_server =
     \<lparr>pixmaps = [(7, \<lparr>pm_size = (640, 480), pm_contents = \<lparr>on_ctx = [], on_xcb = []\<rparr>\<rparr>)],
      win_back_pixmap = 7, win_contents = None\<rparr>"

subsection \<open>Sequences of renders\<close>

text \<open>
  Between two renders the collaborators set the input length, the unlock state and the
  authentication state. \<open>renders\<close> runs one render after each such setting and lists the
  value of \<open>last_input_position\<close> that each render leaves; \<open>remembered\<close> lists, for a sequence
  of input lengths, the latest strictly positive one at each position.
\<close>

fun renders ::
  "env \<Rightarrow> nat \<times> nat \<Rightarrow> globals \<Rightarrow> (int \<times> unlock_state_t \<times> auth_state_t) list
     \<Rightarrow> int list option" where
  "renders e res g [] = Some []"
| "renders e res g ((n, u, a) # xs) =
     (case draw_image_calls e res (g\<lparr>input_position := n, unlock_state := u, auth_state := a\<rparr>) of
        None \<Rightarrow> None
      | Some (g', f) \<Rightarrow>
          (case renders e res g' xs of
             None \<Rightarrow> None
           | Some ls \<Rightarrow> Some (last_input_position g' # ls)))"

fun remembered :: "int \<Rightarrow> int list \<Rightarrow> int list" where
  "remembered l [] = []"
| "remembered l (n # ns) = (if n > 0 then n # remembered n ns else l # remembered l ns)"

section \<open>Properties\<close>

subsection \<open>Stores into a buffer\<close>

lemma poke_Some: "k < length buf \<Longrightarrow> poke buf (int k) c = Some (buf[k := c])"
  by (simp add: poke_def)

lemma peek_Some: "k < length buf \<Longrightarrow> peek buf (int k) = Some (buf ! k)"
  by (simp add: peek_def)

lemma store_Some:
  "k + length cs \<le> length buf \<Longrightarrow>
   store buf (int k) cs = Some (take k buf @ cs @ drop (k + length cs) buf)"
proof (induction cs arbitrary: buf k)
  case Nil
  then show ?case by simp
next
  case (Cons c cs)
  then have lt: "k < length buf" by simp
  have step: "store buf (int k) (c # cs) = store (buf[k := c]) (int (Suc k)) cs"
    using lt by (simp add: poke_Some add.commute)
  have "Suc k + length cs \<le> length (buf[k := c])" using Cons.prems by simp
  from Cons.IH [OF this]
  have "store (buf[k := c]) (int (Suc k)) cs =
          Some (take (Suc k) (buf[k := c]) @ cs @ drop (Suc k + length cs) (buf[k := c]))" .
  moreover have "take (Suc k) (buf[k := c]) = take k buf @ [c]"
    using lt by (simp add: take_Suc_conv_app_nth)
  moreover have "drop (Suc k + length cs) (buf[k := c]) = drop (k + length (c # cs)) buf"
    by simp
  ultimately show ?case using step by simp
qed

lemma strcpy_Some:
  "k + strlen src < length buf \<Longrightarrow>
   strcpy buf (int k) src = Some (take k buf @ cstr src @ NUL # drop (Suc (k + strlen src)) buf)"
  using store_Some [of k "cstr src @ [NUL]" buf] by (simp add: strcpy_def strlen_def)


subsection \<open>The copies that \<^verbatim>\<open>string_repeat\<close> writes\<close>

declare copy_down.simps [simp del]

lemma copy_down_spec:
  "pb = pa + int L \<Longrightarrow> - 1 \<le> pa \<Longrightarrow> pa + int L < int (length buf) \<Longrightarrow>
   \<exists>d. copy_down buf pa pb = Some d \<and> length d = length buf \<and>
       (\<forall>i. pa < int i \<longrightarrow> d ! i = buf ! i) \<and>
       (\<forall>i. int i \<le> pa \<longrightarrow> d ! i = d ! (i + L))"
proof (induction buf pa pb rule: copy_down.induct)
  case (1 buf pa pb)
  show ?case
  proof (cases "pa \<ge> 0")
    case False
    then have "copy_down buf pa pb = Some buf"
      by (subst copy_down.simps) simp
    moreover have "\<forall>i. \<not> int i \<le> pa" using False by auto
    ultimately show ?thesis by simp
  next
    case True
    define k where "k = nat pa"
    have pa: "pa = int k" using True by (simp add: k_def)
    have pb: "pb = int (k + L)" using "1.prems"(1) pa by simp
    have kL: "k + L < length buf" using "1.prems"(3) pa by simp
    define c where "c = buf ! (k + L)"
    define buf' where "buf' = buf[k := c]"
    have pk: "peek buf pb = Some c"
      unfolding pb c_def using kL by (rule peek_Some)
    have po: "poke buf pa c = Some buf'"
      unfolding pa buf'_def using kL by (simp add: poke_Some)
    have unf: "copy_down buf pa pb = copy_down buf' (pa - 1) (pb - 1)"
      using True pk po by (subst copy_down.simps) simp
    have "\<exists>d. copy_down buf' (pa - 1) (pb - 1) = Some d \<and> length d = length buf' \<and>
       (\<forall>i. pa - 1 < int i \<longrightarrow> d ! i = buf' ! i) \<and>
       (\<forall>i. int i \<le> pa - 1 \<longrightarrow> d ! i = d ! (i + L))"
    proof (rule "1.IH" [OF True pk po])
      show "pb - 1 = pa - 1 + int L" using "1.prems"(1) by simp
      show "- 1 \<le> pa - 1" using True by simp
      show "pa - 1 + int L < int (length buf')" using "1.prems"(3) by (simp add: buf'_def)
    qed
    then obtain d where d: "copy_down buf' (pa - 1) (pb - 1) = Some d"
      and len: "length d = length buf'"
      and keep: "\<And>i. pa - 1 < int i \<Longrightarrow> d ! i = buf' ! i"
      and per: "\<And>i. int i \<le> pa - 1 \<Longrightarrow> d ! i = d ! (i + L)"
      by blast
    have above: "d ! i = buf ! i" if "pa < int i" for i
    proof -
      have "d ! i = buf' ! i" using that by (intro keep) simp
      also have "\<dots> = buf ! i" using that pa by (simp add: buf'_def)
      finally show ?thesis .
    qed
    have atk: "d ! k = c"
    proof -
      have "d ! k = buf' ! k" by (rule keep) (simp add: pa)
      then show ?thesis using kL by (simp add: buf'_def)
    qed
    have atkL: "d ! (k + L) = c"
    proof (cases "L = 0")
      case True
      then show ?thesis using atk by simp
    next
      case False
      then have "pa < int (k + L)" using pa by simp
      from above [OF this] show ?thesis by (simp add: c_def)
    qed
    have below: "d ! i = d ! (i + L)" if "int i \<le> pa" for i
    proof (cases "i = k")
      case True
      then show ?thesis using atk atkL by simp
    next
      case False
      then have "int i \<le> pa - 1" using that pa by simp
      then show ?thesis by (rule per)
    qed
    show ?thesis
      using unf d len above below by (simp add: buf'_def)
  qed
qed

lemma nth_concat_replicate:
  "i < n * length s \<Longrightarrow> concat (replicate n s) ! i = s ! (i mod length s)"
proof (induction n arbitrary: i)
  case 0
  then show ?case by simp
next
  case (Suc n)
  show ?case
  proof (cases "i < length s")
    case True
    then show ?thesis by (simp add: nth_append)
  next
    case False
    then have "i - length s < n * length s" using Suc.prems by simp
    from Suc.IH [OF this] False show ?thesis
      by (simp add: nth_append le_mod_geq)
  qed
qed

lemma periodic_nth:
  assumes per: "\<And>i. i + length s < n * length s \<Longrightarrow> xs ! i = xs ! (i + length s)"
    and top: "\<And>j. j < length s \<Longrightarrow> xs ! ((n - 1) * length s + j) = s ! j"
    and n: "0 < n"
  shows "i < n * length s \<Longrightarrow> xs ! i = s ! (i mod length s)"
proof (induction "n * length s - i" arbitrary: i rule: less_induct)
  case less
  have split: "n * length s = (n - 1) * length s + length s"
    using n by (cases n) simp_all
  show ?case
  proof (cases "i + length s < n * length s")
    case True
    have pos: "0 < length s" using True by (cases "length s = 0") simp_all
    have dec: "n * length s - (i + length s) < n * length s - i"
      using True pos by linarith
    have "xs ! i = xs ! (i + length s)" by (rule per [OF True])
    also have "\<dots> = s ! ((i + length s) mod length s)"
      using dec True by (rule less.hyps)
    finally show ?thesis by simp
  next
    case False
    define j where "j = i - (n - 1) * length s"
    have i: "i = (n - 1) * length s + j" and j: "j < length s"
      using False less.prems split by (auto simp: j_def)
    have "xs ! i = s ! j" unfolding i by (rule top [OF j])
    moreover have "i mod length s = j" using j by (simp add: i)
    ultimately show ?thesis by simp
  qed
qed


lemma string_repeat_Some:
  assumes n: "0 < n"
    and room: "nat (min n 64) * strlen str < length dest"
    and ovf: "63 * int (strlen str) \<le> INT_MAX"
  shows "\<exists>d. string_repeat dest str n = Some d \<and> length d = length dest \<and>
           take (nat (min n 64) * strlen str) d = concat (replicate (nat (min n 64)) (cstr str)) \<and>
           d ! (nat (min n 64) * strlen str) = NUL \<and>
           drop (Suc (nat (min n 64) * strlen str)) d = drop (Suc (nat (min n 64) * strlen str)) dest"
proof -
  define k where "k = nat (min n 64)"
  define L where "L = strlen str"
  define s where "s = cstr str"
  define b where "b = (k - 1) * L"
  have Ls: "length s = L" by (simp add: s_def L_def strlen_def)
  have k1: "1 \<le> k" and k64: "k \<le> 64" using n by (auto simp: k_def)
  have nk: "(if n \<ge> 64 then 64 else n) = int k" using n by (auto simp: k_def)
  have kL: "k * L = b + L" using k1 by (cases k) (simp_all add: b_def)
  have bint: "(int k - 1) * int L = int b"
    using k1 by (cases k) (simp_all add: b_def)
  have "int b \<le> 63 * int L"
    unfolding bint [symmetric] using k64 by (intro mult_right_mono) auto
  then have b_ok: "\<not> INT_MAX < int b" and L_ok: "\<not> INT_MAX < int L"
    using ovf by (auto simp: L_def)
  have roomb: "b + strlen str < length dest" using room kL by (simp add: k_def L_def)
  define d0 where "d0 = take b dest @ s @ NUL # drop (Suc (b + L)) dest"
  have cp: "strcpy dest (int b) str = Some d0"
    using strcpy_Some [OF roomb] by (simp add: d0_def s_def L_def)
  have len0: "length d0 = length dest" using roomb by (simp add: d0_def Ls L_def)
  have unf: "string_repeat dest str n = copy_down d0 (int b - 1) (int b - 1 + int L)"
    using n b_ok L_ok cp
    by (simp add: string_repeat_def Let_def nk bint L_def [symmetric] del: of_nat_mult)
  have "\<exists>d. copy_down d0 (int b - 1) (int b - 1 + int L) = Some d \<and> length d = length d0 \<and>
       (\<forall>i. int b - 1 < int i \<longrightarrow> d ! i = d0 ! i) \<and>
       (\<forall>i. int i \<le> int b - 1 \<longrightarrow> d ! i = d ! (i + L))"
    using roomb len0 by (intro copy_down_spec) (auto simp: L_def)
  then obtain d where d: "copy_down d0 (int b - 1) (int b - 1 + int L) = Some d"
    and len: "length d = length d0"
    and keep0: "\<And>i. int b - 1 < int i \<Longrightarrow> d ! i = d0 ! i"
    and per0: "\<And>i. int i \<le> int b - 1 \<Longrightarrow> d ! i = d ! (i + L)"
    by blast
  have keep: "d ! i = d0 ! i" if "b \<le> i" for i
    using that by (intro keep0) simp
  have per: "d ! i = d ! (i + L)" if "i < b" for i
    using that by (intro per0) simp
  have lenb: "length (take b dest) = b" using roomb by simp
  have top: "d ! ((k - 1) * length s + j) = s ! j" if "j < length s" for j
  proof -
    have "d ! (b + j) = d0 ! (b + j)" by (rule keep) simp
    also have "\<dots> = s ! j" using that lenb by (simp add: d0_def nth_append)
    finally show ?thesis by (simp add: b_def Ls)
  qed
  have nth: "d ! i = s ! (i mod length s)" if "i < k * length s" for i
  proof (rule periodic_nth [where n = k])
    show "d ! i = d ! (i + length s)" if "i + length s < k * length s" for i
      using that kL by (intro per [unfolded Ls [symmetric]]) (simp add: Ls)
    show "d ! ((k - 1) * length s + j) = s ! j" if "j < length s" for j
      by (rule top [OF that])
    show "0 < k" using k1 by simp
    show "i < k * length s" by (rule that)
  qed
  have tk: "take (k * L) d = concat (replicate k s)"
  proof (rule nth_equalityI)
    show "length (take (k * L) d) = length (concat (replicate k s))"
      using roomb kL len len0 by (simp add: length_concat sum_list_replicate Ls L_def)
    fix i assume "i < length (take (k * L) d)"
    then have i: "i < k * length s" by (simp add: Ls)
    then show "take (k * L) d ! i = concat (replicate k s) ! i"
      using nth [OF i] by (simp add: nth_concat_replicate Ls)
  qed
  have nul: "d ! (k * L) = NUL"
  proof -
    have "d ! (b + L) = d0 ! (b + L)" by (rule keep) simp
    also have "\<dots> = NUL" using lenb by (simp add: d0_def nth_append Ls)
    finally show ?thesis by (simp add: kL)
  qed
  have dr: "drop (Suc (k * L)) d = drop (Suc (k * L)) dest"
  proof (rule nth_equalityI)
    show "length (drop (Suc (k * L)) d) = length (drop (Suc (k * L)) dest)"
      by (simp add: len len0)
    fix i assume "i < length (drop (Suc (k * L)) d)"
    then have i: "Suc (k * L) + i < length dest" by (simp add: len len0)
    have "d ! (Suc (b + L) + i) = d0 ! (Suc (b + L) + i)" by (rule keep) simp
    also have "\<dots> = dest ! (Suc (b + L) + i)"
      using lenb i kL by (simp add: d0_def nth_append Ls)
    finally show "drop (Suc (k * L)) d ! i = drop (Suc (k * L)) dest ! i"
      using i by (simp add: kL len len0)
  qed
  show ?thesis
    using unf d len len0 tk nul dr by (simp add: k_def L_def s_def)
qed

lemma string_repeat_nonpositive: "n \<le> 0 \<Longrightarrow> string_repeat dest str n = Some dest"
  by (simp add: string_repeat_def)

lemma cstr_is_NUL_free: "NUL \<notin> set (cstr s)"
  unfolding cstr_def by (induction s) auto

lemma cstr_terminated: "NUL \<notin> set xs \<Longrightarrow> cstr (xs @ NUL # ys) = xs"
  unfolding cstr_def by (induction xs) auto

lemma cstr_of_prefix:
  assumes tk: "take m d = xs" and nul: "d ! m = NUL" and m: "m < length d" and xs: "NUL \<notin> set xs"
  shows "cstr d = xs"
proof -
  have "d = take m d @ d ! m # drop (Suc m) d"
    using m by (simp add: id_take_nth_drop [symmetric])
  then have "d = xs @ NUL # drop (Suc m) d" using tk nul by simp
  then have "cstr d = cstr (xs @ NUL # drop (Suc m) d)" by simp
  then show ?thesis using xs by (simp add: cstr_terminated)
qed

lemma string_repeat_cstr:
  assumes n: "0 < n"
    and room: "nat (min n 64) * strlen str < length dest"
    and ovf: "63 * int (strlen str) \<le> INT_MAX"
  shows "\<exists>d. string_repeat dest str n = Some d \<and> length d = length dest \<and>
           cstr d = concat (replicate (nat (min n 64)) (cstr str)) \<and>
           drop (Suc (nat (min n 64) * strlen str)) d = drop (Suc (nat (min n 64) * strlen str)) dest"
proof -
  from string_repeat_Some [OF n room ovf]
  obtain d where d: "string_repeat dest str n = Some d" and len: "length d = length dest"
    and tk: "take (nat (min n 64) * strlen str) d = concat (replicate (nat (min n 64)) (cstr str))"
    and nul: "d ! (nat (min n 64) * strlen str) = NUL"
    and dr: "drop (Suc (nat (min n 64) * strlen str)) d = drop (Suc (nat (min n 64) * strlen str)) dest"
    by blast
  have "NUL \<notin> set (concat (replicate (nat (min n 64)) (cstr str)))"
    using cstr_is_NUL_free [of str] by auto
  with tk nul room len have "cstr d = concat (replicate (nat (min n 64)) (cstr str))"
    by (intro cstr_of_prefix [where m = "nat (min n 64) * strlen str"]) simp_all
  with d len dr show ?thesis by blast
qed

lemma strlen_status_dot: "strlen status_dot = 3"
  by (simp add: strlen_def cstr_def status_dot_def NUL_def)

lemma cstr_status_dot: "cstr status_dot = status_dot"
  by (simp add: cstr_def status_dot_def NUL_def)

lemma string_repeat_dot:
  assumes len: "193 \<le> length dest"
  shows "\<exists>d. string_repeat dest status_dot n = Some d \<and> length d = length dest \<and>
           drop 193 d = drop 193 dest \<and>
           (n \<le> 0 \<longrightarrow> d = dest) \<and>
           (0 < n \<longrightarrow> cstr d = concat (replicate (nat (min n 64)) status_dot))"
proof (cases "0 < n")
  case False
  then show ?thesis by (simp add: string_repeat_nonpositive)
next
  case True
  define m where "m = Suc (nat (min n 64) * 3)"
  have m: "m \<le> 193" by (simp add: m_def)
  have room: "nat (min n 64) * strlen status_dot < length dest"
    using len by (simp add: strlen_status_dot)
  have ovf: "63 * int (strlen status_dot) \<le> INT_MAX"
    by (simp add: strlen_status_dot INT_MAX_def)
  from string_repeat_cstr [OF True room ovf]
  obtain d where d: "string_repeat dest status_dot n = Some d" and l: "length d = length dest"
    and c: "cstr d = concat (replicate (nat (min n 64)) status_dot)"
    and dr: "drop m d = drop m dest"
    by (auto simp: strlen_status_dot cstr_status_dot m_def)
  have "drop 193 d = drop (193 - m) (drop m d)" using m by simp
  also have "\<dots> = drop (193 - m) (drop m dest)" by (simp only: dr)
  also have "\<dots> = drop 193 dest" using m by simp
  finally show ?thesis using d l c True by simp
qed

lemma length_malloc: "length (malloc e n) = n"
  by (simp add: malloc_def)

lemma strcpy_empty:
  "0 < length buf \<Longrightarrow> strcpy buf 0 [] = Some (NUL # tl buf)"
  using strcpy_Some [of 0 "[]" buf]
  by (cases buf) (simp_all add: strlen_def cstr_def drop_Suc)

lemma cstr_NUL_Cons: "cstr (NUL # xs) = []"
  by (simp add: cstr_def)

subsection \<open>The text of the indicator\<close>

text \<open>The count that lines 160 to 163 pass to \<^verbatim>\<open>string_repeat\<close>.\<close>

lemma indicator_text_Some:
  "\<exists>t. indicator_text e g = Some t \<and> length t = 256 \<and>
       drop 193 t = drop 193 (malloc e 256) \<and>
       cstr t = concat (replicate
                  (nat (min (if auth_state g = STATE_AUTH_WRONG \<or>
                                auth_state g = STATE_I3LOCK_LOCK_FAILED
                             then last_input_position g else input_position g) 64))
                  status_dot)"
proof -
  define n where "n = (if auth_state g = STATE_AUTH_WRONG \<or> auth_state g = STATE_I3LOCK_LOCK_FAILED
                        then last_input_position g else input_position g)"
  define t0 where "t0 = NUL # tl (malloc e 256)"
  have cp: "strcpy (malloc e 256) 0 [] = Some t0"
    unfolding t0_def by (rule strcpy_empty) (simp add: length_malloc)
  have l0: "length t0 = 256" by (simp add: t0_def length_malloc)
  have "drop 193 t0 = drop 192 (tl (malloc e 256))"
    by (simp add: t0_def)
  also have "\<dots> = drop (Suc 192) (malloc e 256)"
    by (simp only: drop_Suc)
  finally have d0: "drop 193 t0 = drop 193 (malloc e 256)" by simp
  have unf: "indicator_text e g = string_repeat t0 status_dot n"
    by (simp add: indicator_text_def cp n_def)
  from string_repeat_dot [of t0 n] l0
  obtain d where d: "string_repeat t0 status_dot n = Some d" and l: "length d = length t0"
    and dr: "drop 193 d = drop 193 t0"
    and le: "n \<le> 0 \<Longrightarrow> d = t0"
    and gt: "0 < n \<Longrightarrow> cstr d = concat (replicate (nat (min n 64)) status_dot)"
    by auto
  have "cstr d = concat (replicate (nat (min n 64)) status_dot)"
  proof (cases "0 < n")
    case True
    then show ?thesis by (rule gt)
  next
    case False
    then have "d = t0" by (intro le) simp
    with False show ?thesis by (simp add: t0_def cstr_NUL_Cons)
  qed
  with unf d l l0 dr d0 show ?thesis by (simp add: n_def)
qed

lemma auth_switch_Some:
  assumes "0 < length t"
  shows "\<exists>t' c. auth_switch g t = Some (t', c) \<and> length t' = length t \<and>
           drop 1 t' = drop 1 t \<and>
           cstr t' = (if auth_state g = STATE_AUTH_IDLE \<and> unlock_state g = STATE_NOTHING_TO_DELETE
                      then [] else cstr t) \<and>
           c = (if auth_state g = STATE_AUTH_VERIFY \<or> auth_state g = STATE_AUTH_LOCK
                  then cairo_set_source_rgb (to_float (84 / 255)) (to_float (110 / 255)) (to_float (122 / 255))
                else if auth_state g = STATE_I3LOCK_LOCK_FAILED \<or>
                        (auth_state g = STATE_AUTH_WRONG \<and>
                         unlock_value (unlock_state g) < unlock_value STATE_KEY_PRESSED)
                  then cairo_set_source_rgb (to_float (255 / 255)) (to_float (83 / 255)) (to_float (112 / 255))
                else cairo_set_source_rgb 1 1 1)"
proof -
  have cp: "strcpy t 0 [] = Some (NUL # tl t)" by (rule strcpy_empty [OF assms])
  have len: "length (NUL # tl t) = length t" using assms by (cases t) simp_all
  show ?thesis
    using cp len by (cases "auth_state g") (simp_all add: auth_switch_def cstr_NUL_Cons drop_Suc)
qed

subsection \<open>One run of the renderer\<close>

lemma screen_placement_Some:
  assumes "n \<le> int (length rs)"
  shows "\<exists>p dbg. screen_placement n rs i res = Some (p, dbg)"
proof (cases "0 < n")
  case False
  then show ?thesis by (simp add: screen_placement_def)
next
  case True
  then have "0 < int (length rs)" using assms by linarith
  then have "array_at rs 0 \<noteq> None" by (simp add: array_at_def)
  moreover have "0 \<le> i \<and> i < n \<Longrightarrow> array_at rs i \<noteq> None"
    using assms by (simp add: array_at_def)
  ultimately show ?thesis
    using True by (auto simp: screen_placement_def split: if_splits)
qed

lemma remember_input_fields [simp]:
  "auth_state (remember_input g) = auth_state g"
  "unlock_state (remember_input g) = unlock_state g"
  "input_position (remember_input g) = input_position g"
  "xr_screens (remember_input g) = xr_screens g"
  "xr_resolutions (remember_input g) = xr_resolutions g"
  "show_on_screen (remember_input g) = show_on_screen g"
  "last_resolution (remember_input g) = last_resolution g"
  "last_input_position (remember_input g)
     = (if input_position g > 0 then input_position g else last_input_position g)"
  by (simp_all add: remember_input_def)

lemma draw_indicator_Some:
  assumes pl: "screen_placement (xr_screens g) (xr_resolutions g) (show_on_screen g)
                 (last_resolution g) = Some (p, dbg)"
  shows "\<exists>calls. draw_indicator e g = Some (DEBUG dbg (remember_input g), calls) \<and>
           shown_text calls =
             (if auth_state g = STATE_AUTH_IDLE \<and> unlock_state g = STATE_NOTHING_TO_DELETE
              then []
              else concat (replicate
                     (nat (min (if auth_state g = STATE_AUTH_WRONG \<or>
                                   auth_state g = STATE_I3LOCK_LOCK_FAILED
                                then last_input_position (remember_input g)
                                else input_position g) 64))
                     status_dot)) \<and>
           text_colour None calls =
             (if auth_state g = STATE_AUTH_VERIFY \<or> auth_state g = STATE_AUTH_LOCK
                then Some (to_float (84 / 255), to_float (110 / 255), to_float (122 / 255))
              else if auth_state g = STATE_I3LOCK_LOCK_FAILED \<or>
                      (auth_state g = STATE_AUTH_WRONG \<and>
                       unlock_value (unlock_state g) < unlock_value STATE_KEY_PRESSED)
                then Some (to_float (255 / 255), to_float (83 / 255), to_float (112 / 255))
              else Some (1, 1, 1))"
proof -
  from indicator_text_Some [of e "remember_input g"]
  obtain t where t: "indicator_text e (remember_input g) = Some t" and lt: "length t = 256"
    and ct: "cstr t = concat (replicate
                  (nat (min (if auth_state g = STATE_AUTH_WRONG \<or>
                                auth_state g = STATE_I3LOCK_LOCK_FAILED
                             then last_input_position (remember_input g)
                             else input_position g) 64))
                  status_dot)"
    by auto
  have "0 < length t" using lt by simp
  from auth_switch_Some [OF this, of "remember_input g"]
  obtain t' c where sw: "auth_switch (remember_input g) t = Some (t', c)"
    and ct': "cstr t' = (if auth_state g = STATE_AUTH_IDLE \<and>
                            unlock_state g = STATE_NOTHING_TO_DELETE then [] else cstr t)"
    and c: "c = (if auth_state g = STATE_AUTH_VERIFY \<or> auth_state g = STATE_AUTH_LOCK
                  then cairo_set_source_rgb (to_float (84 / 255)) (to_float (110 / 255)) (to_float (122 / 255))
                else if auth_state g = STATE_I3LOCK_LOCK_FAILED \<or>
                        (auth_state g = STATE_AUTH_WRONG \<and>
                         unlock_value (unlock_state g) < unlock_value STATE_KEY_PRESSED)
                  then cairo_set_source_rgb (to_float (255 / 255)) (to_float (83 / 255)) (to_float (112 / 255))
                else cairo_set_source_rgb 1 1 1)"
    by auto
  show ?thesis
    using t sw pl ct ct' c by (simp add: draw_indicator_def Let_def)
qed

lemma indicator_drawn_vistype [simp]:
  "indicator_drawn (g\<lparr>vistype := v\<rparr>) = indicator_drawn g"
  by (simp add: indicator_drawn_def)

lemma draw_background_vistype [simp]:
  "draw_background (g\<lparr>vistype := v\<rparr>) res = draw_background g res"
  by (simp add: draw_background_def split: option.splits)

lemma DEBUG_fields [simp]:
  "auth_state (DEBUG ls g) = auth_state g"
  "unlock_state (DEBUG ls g) = unlock_state g"
  "input_position (DEBUG ls g) = input_position g"
  "last_input_position (DEBUG ls g) = last_input_position g"
  "xr_screens (DEBUG ls g) = xr_screens g"
  "xr_resolutions (DEBUG ls g) = xr_resolutions g"
  "show_on_screen (DEBUG ls g) = show_on_screen g"
  "last_resolution (DEBUG ls g) = last_resolution g"
  "unlock_indicator (DEBUG ls g) = unlock_indicator g"
  "vistype (DEBUG ls g) = vistype g"
  "bg_pixmap (DEBUG ls g) = bg_pixmap g"
  "color (DEBUG ls g) = color g"
  "img (DEBUG ls g) = img g"
  "tile (DEBUG ls g) = tile g"
  "debug_mode (DEBUG ls g) = debug_mode g"
  by (simp_all add: DEBUG_def)

text \<open>A run that draws the indicator: the text shown, its colour, and the globals left.\<close>

lemma draw_image_calls_drawn:
  assumes ok: "xr_screens g \<le> int (length (xr_resolutions g))"
    and dr: "indicator_drawn g"
  shows "\<exists>g' f. draw_image_calls e res g = Some (g', f) \<and>
           last_input_position g'
             = (if input_position g > 0 then input_position g else last_input_position g) \<and>
           shown_text (on_ctx f) =
             (if auth_state g = STATE_AUTH_IDLE \<and> unlock_state g = STATE_NOTHING_TO_DELETE
              then []
              else concat (replicate
                     (nat (min (if auth_state g = STATE_AUTH_WRONG \<or>
                                   auth_state g = STATE_I3LOCK_LOCK_FAILED
                                then last_input_position g'
                                else input_position g) 64))
                     status_dot)) \<and>
           text_colour None (on_ctx f) =
             (if auth_state g = STATE_AUTH_VERIFY \<or> auth_state g = STATE_AUTH_LOCK
                then Some (to_float (84 / 255), to_float (110 / 255), to_float (122 / 255))
              else if auth_state g = STATE_I3LOCK_LOCK_FAILED \<or>
                      (auth_state g = STATE_AUTH_WRONG \<and>
                       unlock_value (unlock_state g) < unlock_value STATE_KEY_PRESSED)
                then Some (to_float (255 / 255), to_float (83 / 255), to_float (112 / 255))
              else Some (1, 1, 1))"
proof -
  define gv where "gv = (if vistype g = None then g\<lparr>vistype := Some (root_visual_type e)\<rparr> else g)"
  have same [simp]:
    "auth_state gv = auth_state g" "unlock_state gv = unlock_state g"
    "input_position gv = input_position g" "last_input_position gv = last_input_position g"
    "xr_screens gv = xr_screens g" "xr_resolutions gv = xr_resolutions g"
    "show_on_screen gv = show_on_screen g" "last_resolution gv = last_resolution g"
    by (simp_all add: gv_def)
  have drv: "indicator_drawn gv" using dr by (simp add: gv_def)
  from screen_placement_Some [OF ok, of "show_on_screen g" "last_resolution g"]
  obtain p dbg where "screen_placement (xr_screens g) (xr_resolutions g) (show_on_screen g)
                 (last_resolution g) = Some (p, dbg)"
    by blast
  then have pl: "screen_placement (xr_screens gv) (xr_resolutions gv) (show_on_screen gv)
                 (last_resolution gv) = Some (p, dbg)"
    by simp
  from draw_indicator_Some [OF pl, of e]
  obtain calls where di: "draw_indicator e gv = Some (DEBUG dbg (remember_input gv), calls)"
    and st: "shown_text calls =
             (if auth_state g = STATE_AUTH_IDLE \<and> unlock_state g = STATE_NOTHING_TO_DELETE
              then []
              else concat (replicate
                     (nat (min (if auth_state g = STATE_AUTH_WRONG \<or>
                                   auth_state g = STATE_I3LOCK_LOCK_FAILED
                                then last_input_position (remember_input gv)
                                else input_position g) 64))
                     status_dot))"
    and tc: "text_colour None calls =
             (if auth_state g = STATE_AUTH_VERIFY \<or> auth_state g = STATE_AUTH_LOCK
                then Some (to_float (84 / 255), to_float (110 / 255), to_float (122 / 255))
              else if auth_state g = STATE_I3LOCK_LOCK_FAILED \<or>
                      (auth_state g = STATE_AUTH_WRONG \<and>
                       unlock_value (unlock_state g) < unlock_value STATE_KEY_PRESSED)
                then Some (to_float (255 / 255), to_float (83 / 255), to_float (112 / 255))
              else Some (1, 1, 1))"
    by auto
  have "draw_image_calls e res g =
          Some (DEBUG dbg (remember_input gv),
                \<lparr>on_ctx = calls,
                 on_xcb = draw_background gv res @
                   [cairo_set_source_surface output_surface 0 0,
                    cairo_rectangle 0 0 (of_nat (fst res)) (of_nat (snd res)),
                    cairo_fill]\<rparr>)"
    using drv di unfolding draw_image_calls_def gv_def [symmetric] by (simp add: Let_def)
  then show ?thesis using st tc by simp
qed

text \<open>A run that does not draw the indicator makes no call on \<^verbatim>\<open>ctx\<close>.\<close>

lemma draw_image_calls_not_drawn:
  assumes "\<not> indicator_drawn g"
  shows "\<exists>g' f. draw_image_calls e res g = Some (g', f) \<and> on_ctx f = [] \<and>
           last_input_position g' = last_input_position g"
  using assms by (simp add: draw_image_calls_def Let_def)

text \<open>The globals that a run leaves.\<close>

lemma draw_image_calls_globals:
  assumes "draw_image_calls e res g = Some (g', f)"
  shows "g' = g\<lparr>vistype := Some (case vistype g of None \<Rightarrow> root_visual_type e | Some v \<Rightarrow> v),
                 last_input_position :=
                   (if indicator_drawn g \<and> 0 < input_position g then input_position g
                    else last_input_position g),
                 debug_out := debug_out g'\<rparr>"
proof -
  define gv where "gv = (if vistype g = None then g\<lparr>vistype := Some (root_visual_type e)\<rparr> else g)"
  have gv: "gv = g\<lparr>vistype := Some (case vistype g of None \<Rightarrow> root_visual_type e | Some v \<Rightarrow> v)\<rparr>"
    by (cases "vistype g") (simp_all add: gv_def)
  have dv: "indicator_drawn gv = indicator_drawn g" by (simp add: gv)
  show ?thesis
  proof (cases "indicator_drawn g")
    case False
    then have "g' = gv"
      using assms dv unfolding draw_image_calls_def gv_def [symmetric]
      by (simp add: Let_def)
    then show ?thesis using False by (simp add: gv)
  next
    case True
    then obtain calls where di: "draw_indicator e gv = Some (g', calls)"
      using assms dv unfolding draw_image_calls_def gv_def [symmetric]
      by (auto simp: Let_def split: option.splits)
    then obtain dbg where "g' = DEBUG dbg (remember_input gv)"
      by (auto simp: draw_indicator_def Let_def split: option.splits)
    then show ?thesis
      using True by (simp add: gv DEBUG_def remember_input_def)
  qed
qed

subsection \<open>The server's pixmaps\<close>

lemma fold_max_ge_start: "a \<le> fold max ks (a :: nat)"
proof (induction ks arbitrary: a)
  case Nil
  then show ?case by simp
next
  case (Cons k ks)
  have "a \<le> max k a" by simp
  also have "\<dots> \<le> fold max ks (max k a)" by (rule Cons.IH)
  finally show ?case by simp
qed

lemma fold_max_ge_member: "k \<in> set ks \<Longrightarrow> k \<le> fold max ks (a :: nat)"
proof (induction ks arbitrary: a)
  case Nil
  then show ?case by simp
next
  case (Cons x ks)
  show ?case
  proof (cases "k = x")
    case True
    have "k \<le> max x a" using True by simp
    also have "\<dots> \<le> fold max ks (max x a)" by (rule fold_max_ge_start)
    finally show ?thesis by simp
  next
    case False
    then have "k \<in> set ks" using Cons.prems by simp
    then show ?thesis by (simp add: Cons.IH)
  qed
qed

lemma xcb_generate_id_not_none: "xcb_generate_id srv \<noteq> XCB_NONE"
  by (simp add: xcb_generate_id_def XCB_NONE_def)

lemma xcb_generate_id_fresh: "map_of (pixmaps srv) (xcb_generate_id srv) = None"
proof -
  have "xcb_generate_id srv \<notin> set (map fst (pixmaps srv))"
  proof
    assume "xcb_generate_id srv \<in> set (map fst (pixmaps srv))"
    from fold_max_ge_member [OF this, of 0]
    show False by (simp add: xcb_generate_id_def)
  qed
  then show ?thesis by (simp add: map_of_eq_None_iff)
qed

lemma sizes_update:
  "map_of xs p = Some pm \<Longrightarrow>
   map (\<lambda>(q, m). (q, pm_size m)) (AList.update p (pm\<lparr>pm_contents := c\<rparr>) xs)
     = map (\<lambda>(q, m). (q, pm_size m)) xs"
  by (induction xs) (auto split: if_splits)

lemma paint_pixmap_sizes: "pixmap_sizes (paint_pixmap gfx res f p srv) = pixmap_sizes srv"
  by (simp add: paint_pixmap_def pixmap_sizes_def sizes_update split: option.splits)

lemma paint_pixmap_lookup:
  "map_of (pixmaps (paint_pixmap gfx res f p srv)) q =
     (if q = p then map_option (\<lambda>pm. pm\<lparr>pm_contents := render gfx res f pm\<rparr>) (map_of (pixmaps srv) p)
      else map_of (pixmaps srv) q)"
  by (simp add: paint_pixmap_def update_conv' split: option.splits)

lemma paint_pixmap_window [simp]:
  "win_back_pixmap (paint_pixmap gfx res f p srv) = win_back_pixmap srv"
  "win_contents (paint_pixmap gfx res f p srv) = win_contents srv"
  by (simp_all add: paint_pixmap_def split: option.splits)

lemma show_pixmaps [simp]:
  "pixmaps (xcb_clear_area (xcb_change_window_attributes srv p)) = pixmaps srv"
  "win_contents (xcb_clear_area (xcb_change_window_attributes srv p))
     = map_option pm_contents (map_of (pixmaps srv) p)"
  by (simp_all add: xcb_clear_area_def xcb_change_window_attributes_def)

lemma xcb_free_pixmap_lookup:
  "map_of (pixmaps (xcb_free_pixmap srv p)) q =
     (if q = p \<and> p \<noteq> XCB_NONE then None else map_of (pixmaps srv) q)"
  by (auto simp: xcb_free_pixmap_def delete_conv')

subsection \<open>One run of \<^verbatim>\<open>redraw_screen\<close>\<close>

lemma draw_image_calls_bg_pixmap:
  assumes "draw_image_calls e res g = Some (g', f)"
  shows "bg_pixmap g' = bg_pixmap g"
  by (subst draw_image_calls_globals [OF assms]) simp

lemma draw_image_calls_clears:
  assumes "draw_image_calls e res g = Some (g', f)"
  shows "starts_with_clear res (on_xcb f)"
  using assms
  by (auto simp: draw_image_calls_def draw_background_def Let_def
           split: option.splits prod.splits)

text \<open>
  The globals and the server with which \<^verbatim>\<open>redraw_screen\<close> calls \<^verbatim>\<open>draw_image\<close>: lines 256
  to 260.
\<close>

lemma redraw_screen_unfold:
  "redraw_screen gfx e (g, srv) =
     (let g1 = DEBUG [Dbg_redraw_screen (unlock_state g) (auth_state g)] g;
          p = xcb_generate_id srv;
          g2 = (if bg_pixmap g = XCB_NONE
                then (DEBUG [Dbg_allocating_pixmap (fst (last_resolution g))
                               (snd (last_resolution g))] g1)\<lparr>bg_pixmap := p\<rparr>
                else g1);
          srv2 = (if bg_pixmap g = XCB_NONE
                  then srv\<lparr>pixmaps := (p, \<lparr>pm_size = last_resolution g,
                                             pm_contents = solid gfx (last_resolution g) (color g)\<rparr>)
                                          # pixmaps srv\<rparr>
                  else srv)
      in case draw_image_calls e (last_resolution g) g2 of
           None \<Rightarrow> None
         | Some (g3, f) \<Rightarrow>
             Some (g3, xcb_clear_area
                         (xcb_change_window_attributes
                            (paint_pixmap gfx (last_resolution g) f (bg_pixmap g2) srv2)
                            (bg_pixmap g2))))"
proof (cases "bg_pixmap g = XCB_NONE")
  case True
  show ?thesis
    using True
    by (auto simp: redraw_screen_def create_bg_pixmap_def draw_image_def Let_def
                   draw_image_calls_bg_pixmap
             split: option.splits)
next
  case False
  show ?thesis
    using False
    by (auto simp: redraw_screen_def draw_image_def Let_def draw_image_calls_bg_pixmap
             split: option.splits)
qed

lemma redraw_screen_allocated:
  assumes "bg_pixmap g \<noteq> XCB_NONE"
  shows "redraw_screen gfx e (g, srv) =
           (case draw_image_calls e (last_resolution g)
                   (DEBUG [Dbg_redraw_screen (unlock_state g) (auth_state g)] g) of
              None \<Rightarrow> None
            | Some (g3, f) \<Rightarrow>
                Some (g3, xcb_clear_area
                            (xcb_change_window_attributes
                               (paint_pixmap gfx (last_resolution g) f (bg_pixmap g) srv)
                               (bg_pixmap g))))"
  unfolding redraw_screen_unfold using assms by (simp add: Let_def split: option.splits)

lemma redraw_screen_empty:
  assumes "bg_pixmap g = XCB_NONE"
  shows "redraw_screen gfx e (g, srv) =
           (case draw_image_calls e (last_resolution g)
                   ((DEBUG [Dbg_allocating_pixmap (fst (last_resolution g))
                              (snd (last_resolution g))]
                       (DEBUG [Dbg_redraw_screen (unlock_state g) (auth_state g)] g))
                      \<lparr>bg_pixmap := xcb_generate_id srv\<rparr>) of
              None \<Rightarrow> None
            | Some (g3, f) \<Rightarrow>
                Some (g3, xcb_clear_area
                            (xcb_change_window_attributes
                               (paint_pixmap gfx (last_resolution g) f (xcb_generate_id srv)
                                  (srv\<lparr>pixmaps :=
                                         (xcb_generate_id srv,
                                          \<lparr>pm_size = last_resolution g,
                                             pm_contents = solid gfx (last_resolution g) (color g)\<rparr>)
                                         # pixmaps srv\<rparr>))
                               (xcb_generate_id srv))))"
  unfolding redraw_screen_unfold using assms by (simp add: Let_def split: option.splits)

subsection \<open>The frame of a run depends on few globals\<close>

lemma indicator_text_cong:
  assumes "auth_state a = auth_state b" and "last_input_position a = last_input_position b"
    and "input_position a = input_position b"
  shows "indicator_text e a = indicator_text e b"
  using assms by (simp add: indicator_text_def split: option.splits)

lemma auth_switch_cong:
  assumes "auth_state a = auth_state b" and "unlock_state a = unlock_state b"
  shows "auth_switch a t = auth_switch b t"
  using assms by (simp add: auth_switch_def)

lemma draw_indicator_cong:
  assumes "auth_state a = auth_state b" and "unlock_state a = unlock_state b"
    and "input_position a = input_position b"
    and "last_input_position (remember_input a) = last_input_position (remember_input b)"
    and "xr_screens a = xr_screens b" and "xr_resolutions a = xr_resolutions b"
    and "show_on_screen a = show_on_screen b" and "last_resolution a = last_resolution b"
  shows "map_option snd (draw_indicator e a) = map_option snd (draw_indicator e b)"
proof -
  have t: "indicator_text e (remember_input a) = indicator_text e (remember_input b)"
    using assms(1,3,4) by (intro indicator_text_cong) simp_all
  have s: "auth_switch (remember_input a) t = auth_switch (remember_input b) t" for t
    using assms(1,2) by (intro auth_switch_cong) simp_all
  show ?thesis
    using assms(5-8)
    by (simp add: draw_indicator_def Let_def t s split: option.splits prod.splits)
qed

lemma draw_image_calls_cong:
  assumes "auth_state a = auth_state b" and "unlock_state a = unlock_state b"
    and "input_position a = input_position b"
    and "last_input_position (remember_input a) = last_input_position (remember_input b)"
    and "xr_screens a = xr_screens b" and "xr_resolutions a = xr_resolutions b"
    and "show_on_screen a = show_on_screen b" and "last_resolution a = last_resolution b"
    and "unlock_indicator a = unlock_indicator b" and "color a = color b"
    and "img a = img b" and "tile a = tile b"
  shows "map_option snd (draw_image_calls e res a) = map_option snd (draw_image_calls e res b)"
proof -
  define av where "av = (if vistype a = None then a\<lparr>vistype := Some (root_visual_type e)\<rparr> else a)"
  define bv where "bv = (if vistype b = None then b\<lparr>vistype := Some (root_visual_type e)\<rparr> else b)"
  have dr: "indicator_drawn av = indicator_drawn bv"
    using assms(1,2,9) by (simp add: av_def bv_def indicator_drawn_def)
  have bg: "draw_background av res = draw_background bv res"
    using assms(10-12) by (simp add: av_def bv_def draw_background_def split: option.splits)
  have fa: "input_position av = input_position a" "last_input_position av = last_input_position a"
    and fb: "input_position bv = input_position b" "last_input_position bv = last_input_position b"
    by (simp_all add: av_def bv_def)
  have "last_input_position (remember_input av) = last_input_position (remember_input bv)"
    using assms(4) by (simp only: remember_input_fields fa fb)
  then have di: "map_option snd (draw_indicator e av) = map_option snd (draw_indicator e bv)"
    using assms(1-3,5-8) by (intro draw_indicator_cong) (simp_all add: av_def bv_def)
  show ?thesis
  proof (cases "indicator_drawn av")
    case False
    then show ?thesis
      using dr bg unfolding draw_image_calls_def av_def [symmetric] bv_def [symmetric]
      by (simp add: Let_def)
  next
    case True
    then show ?thesis
      using dr bg di unfolding draw_image_calls_def av_def [symmetric] bv_def [symmetric]
      by (cases "draw_indicator e av"; cases "draw_indicator e bv") (auto simp: Let_def)
  qed
qed

text \<open>
  A run reads the block of line 157 only as a string, after lines 158 to 163 have stored
  one in it: what the run does is the same whatever bytes \<^verbatim>\<open>malloc\<close> returned.
\<close>

lemma draw_indicator_heap:
  assumes d: "dpi_value e' = dpi_value e" and x: "text_extents e' = text_extents e"
  shows "draw_indicator e' g = draw_indicator e g"
proof -
  from indicator_text_Some [of e "remember_input g"]
  obtain t where t: "indicator_text e (remember_input g) = Some t" and lt: "length t = 256"
    and ct: "cstr t = concat (replicate
                  (nat (min (if auth_state (remember_input g) = STATE_AUTH_WRONG \<or>
                                auth_state (remember_input g) = STATE_I3LOCK_LOCK_FAILED
                             then last_input_position (remember_input g)
                             else input_position (remember_input g)) 64))
                  status_dot)"
    by blast
  from indicator_text_Some [of e' "remember_input g"]
  obtain t' where t': "indicator_text e' (remember_input g) = Some t'" and lt': "length t' = 256"
    and ct': "cstr t' = concat (replicate
                  (nat (min (if auth_state (remember_input g) = STATE_AUTH_WRONG \<or>
                                auth_state (remember_input g) = STATE_I3LOCK_LOCK_FAILED
                             then last_input_position (remember_input g)
                             else input_position (remember_input g)) 64))
                  status_dot)"
    by blast
  have same: "cstr t' = cstr t" by (simp only: ct ct')
  have "0 < length t" using lt by simp
  from auth_switch_Some [OF this, of "remember_input g"]
  obtain u c where sw: "auth_switch (remember_input g) t = Some (u, c)"
    and cu: "cstr u = (if auth_state (remember_input g) = STATE_AUTH_IDLE \<and>
                          unlock_state (remember_input g) = STATE_NOTHING_TO_DELETE
                       then [] else cstr t)"
    and c: "c = (if auth_state (remember_input g) = STATE_AUTH_VERIFY \<or>
                    auth_state (remember_input g) = STATE_AUTH_LOCK
                  then cairo_set_source_rgb (to_float (84 / 255)) (to_float (110 / 255)) (to_float (122 / 255))
                else if auth_state (remember_input g) = STATE_I3LOCK_LOCK_FAILED \<or>
                        (auth_state (remember_input g) = STATE_AUTH_WRONG \<and>
                         unlock_value (unlock_state (remember_input g))
                           < unlock_value STATE_KEY_PRESSED)
                  then cairo_set_source_rgb (to_float (255 / 255)) (to_float (83 / 255)) (to_float (112 / 255))
                else cairo_set_source_rgb 1 1 1)"
    by blast
  have "0 < length t'" using lt' by simp
  from auth_switch_Some [OF this, of "remember_input g"]
  obtain u' c' where sw': "auth_switch (remember_input g) t' = Some (u', c')"
    and cu': "cstr u' = (if auth_state (remember_input g) = STATE_AUTH_IDLE \<and>
                            unlock_state (remember_input g) = STATE_NOTHING_TO_DELETE
                         then [] else cstr t')"
    and c': "c' = (if auth_state (remember_input g) = STATE_AUTH_VERIFY \<or>
                      auth_state (remember_input g) = STATE_AUTH_LOCK
                  then cairo_set_source_rgb (to_float (84 / 255)) (to_float (110 / 255)) (to_float (122 / 255))
                else if auth_state (remember_input g) = STATE_I3LOCK_LOCK_FAILED \<or>
                        (auth_state (remember_input g) = STATE_AUTH_WRONG \<and>
                         unlock_value (unlock_state (remember_input g))
                           < unlock_value STATE_KEY_PRESSED)
                  then cairo_set_source_rgb (to_float (255 / 255)) (to_float (83 / 255)) (to_float (112 / 255))
                else cairo_set_source_rgb 1 1 1)"
    by blast
  have shown: "cstr u' = cstr u" by (simp only: cu cu' same)
  have colour: "c' = c" by (simp only: c c')
  have "draw_indicator e' g =
          (case screen_placement (xr_screens (remember_input g)) (xr_resolutions (remember_input g))
                  (show_on_screen (remember_input g)) (last_resolution (remember_input g)) of
             None \<Rightarrow> None
           | Some (p, dbg) \<Rightarrow>
               (let scaling_factor = to_double (to_double (of_int (dpi_value e)) / 96);
                    extents = text_extents e scaling_factor (cstr u);
                    x = to_double
                          (of_int (screen_offset_x p + screen_center_x p)
                           - to_double (to_double (ext_width extents / 2)
                                        + ext_x_bearing extents));
                    y = to_double
                          (of_int (screen_offset_y p + screen_center_y p)
                           - to_double (to_double (ext_height extents / 2)
                                        + ext_y_bearing extents))
                in Some (DEBUG dbg (remember_input g),
                         [cairo_scale scaling_factor scaling_factor,
                          cairo_set_source_rgb 0 0 0,
                          cairo_select_font_face ''sans-serif'',
                          cairo_set_font_size 80,
                          c,
                          cairo_move_to x y,
                          cairo_show_text (cstr u),
                          cairo_close_path])))"
    unfolding draw_indicator_def
    by (simp only: Let_def t' sw' option.case prod.case shown colour d x)
  also have "\<dots> = draw_indicator e g"
    unfolding draw_indicator_def
    by (simp only: Let_def t sw option.case prod.case)
  finally show ?thesis .
qed

lemma draw_image_calls_heap:
  assumes "dpi_value e' = dpi_value e" and "text_extents e' = text_extents e"
    and "root_visual_type e' = root_visual_type e"
  shows "draw_image_calls e' res g = draw_image_calls e res g"
  unfolding draw_image_calls_def
  by (simp only: draw_indicator_heap [OF assms(1,2)] assms(3))

lemma redraw_screen_heap:
  "redraw_screen gfx (e\<lparr>heap_bytes := h\<rparr>) s = redraw_screen gfx e s"
proof -
  have "draw_image_calls (e\<lparr>heap_bytes := h\<rparr>) res g = draw_image_calls e res g" for res g
    by (rule draw_image_calls_heap) simp_all
  then show ?thesis
    unfolding redraw_screen_def draw_image_def by simp
qed

text \<open>A second run, right after a first one, issues the same calls.\<close>

lemma draw_image_calls_again:
  assumes r: "draw_image_calls e res g = Some (g', f)"
  shows "\<exists>g''. draw_image_calls e res (DEBUG ls g') = Some (g'', f) \<and>
               bg_pixmap g'' = bg_pixmap g \<and> last_resolution g'' = last_resolution g \<and>
               xr_screens g'' = xr_screens g \<and> xr_resolutions g'' = xr_resolutions g"
proof -
  note g' = draw_image_calls_globals [OF r]
  have f1: "auth_state g' = auth_state g" "unlock_state g' = unlock_state g"
    "input_position g' = input_position g" "xr_screens g' = xr_screens g"
    "xr_resolutions g' = xr_resolutions g" "show_on_screen g' = show_on_screen g"
    "last_resolution g' = last_resolution g" "unlock_indicator g' = unlock_indicator g"
    "color g' = color g" "img g' = img g" "tile g' = tile g" "bg_pixmap g' = bg_pixmap g"
    by (subst g', simp)+
  have l: "last_input_position g' =
             (if indicator_drawn g \<and> 0 < input_position g then input_position g
              else last_input_position g)"
    by (subst g') simp
  have l2: "last_input_position (remember_input (DEBUG ls g'))
              = last_input_position (remember_input g)"
    by (simp add: f1 l)
  have "map_option snd (draw_image_calls e res (DEBUG ls g'))
          = map_option snd (draw_image_calls e res g)"
    using l2 by (intro draw_image_calls_cong) (simp_all add: f1)
  then obtain g'' where r2: "draw_image_calls e res (DEBUG ls g') = Some (g'', f)"
    using r by (cases "draw_image_calls e res (DEBUG ls g')") auto
  note g'' = draw_image_calls_globals [OF r2]
  have "bg_pixmap g'' = bg_pixmap g" "last_resolution g'' = last_resolution g"
    "xr_screens g'' = xr_screens g" "xr_resolutions g'' = xr_resolutions g"
    by (subst g'', simp add: f1)+
  with r2 show ?thesis by blast
qed

lemma draw_image_calls_total:
  assumes "xr_screens g \<le> int (length (xr_resolutions g))"
  shows "\<exists>g' f. draw_image_calls e res g = Some (g', f)"
proof (cases "indicator_drawn g")
  case True
  from draw_image_calls_drawn [OF assms True, of e res] show ?thesis by blast
next
  case False
  from draw_image_calls_not_drawn [OF False, of e res] show ?thesis by blast
qed

subsection \<open>Rounding to a floating-point value\<close>

lemma binade_bounds:
  assumes "0 < x"
  shows "2 powi (binade x) \<le> x \<and> x < 2 powi (binade x + 1)"
proof (cases "1 \<le> x")
  case True
  define n where "n = nat \<lfloor>x\<rfloor>"
  have n1: "0 < n" using True by (simp add: n_def)
  have "0 \<le> \<lfloor>x\<rfloor>" using True by simp
  then have "(of_nat n :: rat) = of_int \<lfloor>x\<rfloor>" by (simp add: n_def)
  then have nx: "of_nat n \<le> x" "x < of_nat n + 1"
    using floor_correct [of x] by simp_all
  define k where "k = floorlog 2 n"
  from floorlog_bounds [of n 2] n1
  have b: "2 ^ (k - 1) \<le> n" "n < 2 ^ k" by (simp_all add: k_def)
  have k1: "0 < k" using b(2) n1 by (cases k) simp_all
  have e: "binade x = int k - 1" using True by (simp add: binade_def n_def k_def)
  have "(2 :: rat) ^ (k - 1) \<le> of_nat n"
    using b(1) by (metis of_nat_le_iff of_nat_numeral of_nat_power)
  then have lo: "(2 :: rat) ^ (k - 1) \<le> x" using nx(1) by linarith
  have "n + 1 \<le> 2 ^ k" using b(2) by simp
  then have "(of_nat (n + 1) :: rat) \<le> 2 ^ k"
    by (metis of_nat_le_iff of_nat_numeral of_nat_power)
  then have hi: "x < 2 ^ k" using nx(2) by simp
  have p1: "(2 :: rat) powi (int k - 1) = 2 ^ (k - 1)"
    using k1 by (simp add: power_int_def nat_diff_distrib')
  have p2: "(2 :: rat) powi (int k - 1 + 1) = 2 ^ k"
    by (simp add: power_int_def)
  show ?thesis using lo hi by (simp only: e p1 p2)
next
  case False
  then have x1: "x < 1" by simp
  define m where "m = \<lceil>1 / x\<rceil>"
  have inv: "1 < 1 / x" using assms x1 by simp
  have "1 < m" using inv by (simp add: m_def less_ceiling_iff)
  then have m2: "2 \<le> m" by simp
  have mx: "1 / x \<le> of_int m" "of_int m - 1 < 1 / x"
    using ceiling_correct [of "1 / x"] by (simp_all add: m_def)
  define n where "n = nat (m - 1)"
  have n1: "0 < n" using m2 by (simp add: n_def)
  have nm: "int n = m - 1" using m2 by (simp add: n_def)
  define k where "k = floorlog 2 n"
  from floorlog_bounds [of n 2] n1
  have b: "2 ^ (k - 1) \<le> n" "n < 2 ^ k" by (simp_all add: k_def)
  have k1: "0 < k" using b(2) n1 by (cases k) simp_all
  have e: "binade x = - int k"
    using False assms by (simp add: binade_def k_def n_def m_def)
  have "m \<le> 2 ^ k"
  proof -
    have "int n < 2 ^ k" using b(2) by (metis of_nat_less_iff of_nat_numeral of_nat_power)
    then show ?thesis using nm by simp
  qed
  then have "(of_int m :: rat) \<le> 2 ^ k"
    by (metis of_int_le_iff of_int_numeral of_int_power)
  then have "1 / x \<le> 2 ^ k" using mx(1) by linarith
  then have lo: "1 / 2 ^ k \<le> x"
    using assms by (simp add: field_simps)
  have "(2 :: int) ^ (k - 1) \<le> m - 1"
    using b(1) nm by (metis of_nat_le_iff of_nat_numeral of_nat_power)
  then have "(2 :: rat) ^ (k - 1) \<le> of_int (m - 1)"
    by (metis of_int_le_iff of_int_numeral of_int_power)
  then have "(2 :: rat) ^ (k - 1) < 1 / x" using mx(2) by simp
  then have hi: "x < 1 / 2 ^ (k - 1)"
    using assms by (simp add: field_simps)
  have p1: "(2 :: rat) powi (- int k) = 1 / 2 ^ k"
    by (simp add: power_int_def field_simps)
  have p2: "(2 :: rat) powi (- int k + 1) = 1 / 2 ^ (k - 1)"
    using k1 by (cases k) (simp_all add: power_int_def field_simps)
  show ?thesis using lo hi by (simp only: e p1 p2)
qed

lemma round_even_error: "\<bar>of_int (round_even y) - y\<bar> \<le> 1 / 2"
proof -
  define f where "f = \<lfloor>y\<rfloor>"
  define r where "r = y - of_int f"
  have r: "0 \<le> r" "r < 1"
    using floor_correct [of y] by (simp_all add: r_def f_def)
  have y: "y = of_int f + r" by (simp add: r_def)
  have "round_even y = (if r < 1 / 2 then f else if 1 / 2 < r then f + 1
                        else if even f then f else f + 1)"
    by (simp add: round_even_def Let_def f_def r_def)
  then show ?thesis
    using r by (auto simp: y)
qed

lemma rnd_error:
  assumes "0 < x"
  shows "\<bar>rnd p x - x\<bar> \<le> x / 2 ^ p"
proof -
  define e where "e = binade x"
  define u :: rat where "u = 2 powi (e - int p + 1)"
  have u0: "0 < u" by (simp add: u_def)
  have r: "rnd p x = of_int (round_even (x / u)) * u"
    using assms by (simp add: rnd_def u_def e_def Let_def)
  have "rnd p x - x = (of_int (round_even (x / u)) - x / u) * u"
    using u0 by (simp add: r field_simps)
  then have "\<bar>rnd p x - x\<bar> = \<bar>of_int (round_even (x / u)) - x / u\<bar> * u"
    using u0 by (simp add: abs_mult)
  also have "\<dots> \<le> 1 / 2 * u"
    using u0 round_even_error [of "x / u"] by (intro mult_right_mono) simp_all
  also have "1 / 2 * u = 2 powi e / 2 ^ p"
    by (simp add: u_def power_int_add power_int_diff)
  also have "\<dots> \<le> x / 2 ^ p"
    using binade_bounds [OF assms] by (simp add: e_def divide_right_mono)
  finally show ?thesis .
qed

lemma rnd_one: "rnd 53 1 = 1"
  by (simp add: rnd_def binade_def round_even_def compute_floorlog)

lemma round_near:
  assumes "\<bar>y - of_int n\<bar> < 1 / 2"
  shows "round (y :: rat) = n"
  using assms by (intro round_unique) (auto simp: abs_if split: if_splits)

text \<open>The quotient \<^verbatim>\<open>v / 255.0\<close> for a value \<open>v\<close> of at most 255.\<close>

lemma fraction_rnd:
  assumes "v < 256"
  shows "0 \<le> rnd 53 (of_nat v / 255) \<and> rnd 53 (of_nat v / 255) \<le> 1 \<and>
         round (rnd 53 (of_nat v / 255) * 255) = int v \<and>
         round (rnd 53 (rnd 53 (of_nat v / 255) * 255)) = int v"
proof (cases "v = 0")
  case True
  then show ?thesis by (simp add: rnd_def)
next
  case False
  define x :: rat where "x = of_nat v / 255"
  define d where "d = rnd 53 x"
  have x0: "0 < x" using False by (simp add: x_def)
  have x1: "x \<le> 1" using assms by (simp add: x_def)
  have err: "\<bar>d - x\<bar> \<le> x / 2 ^ 53" unfolding d_def by (rule rnd_error [OF x0])
  have d0: "0 < d" using err x0 by (simp add: abs_if split: if_splits)
  have d1: "d \<le> 1"
  proof (cases "v = 255")
    case True
    then show ?thesis by (simp add: d_def x_def rnd_one)
  next
    case False
    then have "v \<le> 254" using assms by simp
    then have "x \<le> 254 / 255" by (simp add: x_def)
    then show ?thesis using err by (simp add: abs_if split: if_splits)
  qed
  have xv: "x * 255 = of_nat v" by (simp add: x_def)
  have "\<bar>d * 255 - of_nat v\<bar> = \<bar>d - x\<bar> * 255"
    unfolding xv [symmetric] by (simp add: abs_if)
  then have bk: "\<bar>d * 255 - of_nat v\<bar> \<le> 255 / 2 ^ 53"
    using err x1 by simp
  then have "\<bar>d * 255 - of_int (int v)\<bar> < 1 / 2" by simp
  then have r1: "round (d * 255) = int v" by (rule round_near)
  have "0 < d * 255" using d0 by simp
  from rnd_error [OF this, of 53] d1
  have "\<bar>rnd 53 (d * 255) - d * 255\<bar> \<le> 255 / 2 ^ 53" by simp
  moreover define t :: rat where "t = 255 / 2 ^ 53"
  moreover have "t < 1 / 4" by (simp add: t_def)
  moreover have "rat_of_int (int v) = of_nat v" by simp
  ultimately have "\<bar>rnd 53 (d * 255) - of_int (int v)\<bar> < 1 / 2"
    using bk unfolding t_def [symmetric] by linarith
  then have r2: "round (rnd 53 (d * 255)) = int v" by (rule round_near)
  show ?thesis using d0 d1 r1 r2 by (simp add: d_def x_def)
qed

lemma fraction_double:
  assumes "v < 256"
  shows "0 \<le> to_double (of_nat v / 255) \<and> to_double (of_nat v / 255) \<le> 1 \<and>
         round (to_double (of_nat v / 255) * 255) = int v \<and>
         round (to_double (to_double (of_nat v / 255) * 255)) = int v"
  unfolding to_double_def by (rule fraction_rnd [OF assms])

subsection \<open>Groups of two hexadecimal digits\<close>

lemma hex_digit_less: "hex_digit c = Some d \<Longrightarrow> d < 16"
  by (auto simp: hex_digit_def Let_def split: if_splits)

lemma hex_digit_code: "hex_digit c = Some d \<Longrightarrow> 48 \<le> (of_char c :: nat)"
  by (auto simp: hex_digit_def Let_def split: if_splits)

lemma hex_digit_plain:
  assumes "hex_digit c = Some d"
  shows "c \<noteq> NUL" and "\<not> isspace c" and "c \<noteq> CHR ''-''" and "c \<noteq> CHR ''+''"
  using hex_digit_code [OF assms] by (auto simp: NUL_def isspace_def)

lemma strtol16_group:
  assumes a: "hex_digit a = Some da" and b: "hex_digit b = Some db"
  shows "nat (strtol16 [a, b, NUL] mod 2 ^ 32) = 16 * da + db"
proof -
  have c: "cstr [a, b, NUL] = [a, b]"
    using hex_digit_plain(1) [OF a] hex_digit_plain(1) [OF b] by (simp add: cstr_def)
  have t: "dropWhile isspace (cstr [a, b, NUL]) = [a, b]"
    using hex_digit_plain(2) [OF a] by (simp add: c)
  have v: "hex_digits 0 [a, b] = 16 * da + db"
    using a b by simp
  have "16 * da + db < 256"
    using hex_digit_less [OF a] hex_digit_less [OF b] by simp
  then have small: "int (16 * da + db) < 256" by linarith
  have "strtol16 [a, b, NUL] = min (int (hex_digits 0 [a, b])) (2 ^ 63 - 1)"
    using hex_digit_plain(3,4) [OF a]
    by (simp add: strtol16_def t Let_def del: hex_digits.simps)
  also have "\<dots> = int (16 * da + db)"
    using small by (simp only: v) simp
  finally have "strtol16 [a, b, NUL] = int (16 * da + db)" .
  then show ?thesis using small by (simp del: of_nat_add of_nat_mult)
qed

lemma rgb16_hex:
  assumes len: "length c = 6"
    and d: "hex_digit (c ! 0) = Some d0" "hex_digit (c ! 1) = Some d1"
      "hex_digit (c ! 2) = Some d2" "hex_digit (c ! 3) = Some d3"
      "hex_digit (c ! 4) = Some d4" "hex_digit (c ! 5) = Some d5"
  shows "rgb16 c = (16 * d0 + d1, 16 * d2 + d3, 16 * d4 + d5)"
proof -
  have at: "color_at c i = c ! i" if "i < 6" for i
    using len that by (simp add: color_at_def)
  have "rgb16 c = (nat (strtol16 [c ! 0, c ! 1, NUL] mod 2 ^ 32),
                   nat (strtol16 [c ! 2, c ! 3, NUL] mod 2 ^ 32),
                   nat (strtol16 [c ! 4, c ! 5, NUL] mod 2 ^ 32))"
    by (simp add: rgb16_def at Let_def)
  then show ?thesis
    by (simp only: strtol16_group [OF d(1) d(2)] strtol16_group [OF d(3) d(4)]
                   strtol16_group [OF d(5) d(6)])
qed

subsection \<open>A redraw with an empty cache\<close>

lemma redraw_screen_allocates:
  assumes ok: "xr_screens g \<le> int (length (xr_resolutions g))"
    and none: "bg_pixmap g = XCB_NONE"
  shows "\<exists>g' srv' pm. redraw_screen gfx e (g, srv) = Some (g', srv') \<and>
           bg_pixmap g' \<noteq> XCB_NONE \<and>
           map_of (pixmaps srv) (bg_pixmap g') = None \<and>
           map_of (pixmaps srv') (bg_pixmap g') = Some pm \<and>
           pm_size pm = last_resolution g \<and>
           (\<forall>q. q \<noteq> bg_pixmap g' \<longrightarrow> map_of (pixmaps srv') q = map_of (pixmaps srv) q)"
proof -
  define p where "p = xcb_generate_id srv"
  define g2 where "g2 = (DEBUG [Dbg_allocating_pixmap (fst (last_resolution g))
                             (snd (last_resolution g))]
                           (DEBUG [Dbg_redraw_screen (unlock_state g) (auth_state g)] g))
                        \<lparr>bg_pixmap := p\<rparr>"
  define pm0 :: "'a pixmap" where
    "pm0 = \<lparr>pm_size = last_resolution g, pm_contents = solid gfx (last_resolution g) (color g)\<rparr>"
  define srv2 where "srv2 = srv\<lparr>pixmaps := (p, pm0) # pixmaps srv\<rparr>"
  have "xr_screens g2 \<le> int (length (xr_resolutions g2))"
    using ok by (simp add: g2_def)
  from draw_image_calls_total [OF this, of e "last_resolution g"]
  obtain g3 f where r: "draw_image_calls e (last_resolution g) g2 = Some (g3, f)" by blast
  have b3: "bg_pixmap g3 = p"
    using draw_image_calls_bg_pixmap [OF r] by (simp add: g2_def)
  define srv3 where "srv3 = xcb_clear_area (xcb_change_window_attributes
                          (paint_pixmap gfx (last_resolution g) f p srv2) p)"
  have bp2: "bg_pixmap g2 = p" by (simp add: g2_def)
  have "redraw_screen gfx e (g, srv) =
          (case draw_image_calls e (last_resolution g) g2 of
             None \<Rightarrow> None
           | Some (g3, f) \<Rightarrow>
               Some (g3, xcb_clear_area
                           (xcb_change_window_attributes
                              (paint_pixmap gfx (last_resolution g) f (bg_pixmap g2) srv2)
                              (bg_pixmap g2))))"
    unfolding redraw_screen_unfold g2_def srv2_def pm0_def p_def using none
    by (simp add: Let_def)
  then have red: "redraw_screen gfx e (g, srv) = Some (g3, srv3)"
    using r bp2 by (simp add: srv3_def)
  have look: "map_of (pixmaps srv3) q =
                (if q = p then Some (pm0\<lparr>pm_contents := render gfx (last_resolution g) f pm0\<rparr>)
                 else map_of (pixmaps srv) q)" for q
    by (simp add: srv3_def paint_pixmap_lookup srv2_def)
  have "bg_pixmap g3 \<noteq> XCB_NONE"
    unfolding b3 p_def by (rule xcb_generate_id_not_none)
  moreover have "map_of (pixmaps srv) (bg_pixmap g3) = None"
    unfolding b3 p_def by (rule xcb_generate_id_fresh)
  moreover have "map_of (pixmaps srv3) (bg_pixmap g3)
                   = Some (pm0\<lparr>pm_contents := render gfx (last_resolution g) f pm0\<rparr>)"
    by (simp add: look b3)
  moreover have "pm_size (pm0\<lparr>pm_contents := render gfx (last_resolution g) f pm0\<rparr>)
                   = last_resolution g"
    by (simp add: pm0_def)
  moreover have "\<forall>q. q \<noteq> bg_pixmap g3 \<longrightarrow> map_of (pixmaps srv3) q = map_of (pixmaps srv) q"
    by (simp add: look b3)
  ultimately show ?thesis
    using red by blast
qed

section \<open>The claims\<close>

subsection \<open>The glyph sequence builder\<close>

text \<open>
  Claim C10. For a repeat count \<open>n \<le> 0\<close> and any destination buffer, \<^verbatim>\<open>string_repeat\<close>
  returns the buffer as it found it: it stores nothing, not even a NUL. At the call site
  the result is the empty string because \<^verbatim>\<open>draw_image\<close> has stored the empty string in
  the fresh block before the call.
\<close>

theorem string_repeat_nonpositive_frame:
  assumes "n \<le> 0"
  shows "string_repeat dest str n = Some dest \<and>
         (\<exists>t. strcpy (malloc e 256) 0 [] = Some t \<and> cstr t = [] \<and>
              string_repeat t status_dot n = Some t)"
  using assms by (simp add: string_repeat_nonpositive strcpy_empty length_malloc cstr_NUL_Cons)

text \<open>
  At \<open>n = 0\<close>, a buffer that holds \<open>abc\<close> still holds \<open>abc\<close> afterwards; and a fresh block that
  is not set to the empty string first is left with whatever it held.
\<close>

theorem string_repeat_nonpositive_frame_witness:
  "(0::int) \<le> 0 \<and> string_repeat ''abc'' status_dot 0 = Some ''abc'' \<and> cstr ''abc'' = ''abc'' \<and>
   string_repeat (malloc example_env 256) status_dot 0 = Some (malloc example_env 256) \<and>
   cstr (malloc example_env 256) \<noteq> [] \<and>
   (\<exists>t. strcpy (malloc example_env 256) 0 [] = Some t \<and> cstr t = [] \<and>
        string_repeat t status_dot 0 = Some t)"
proof -
  have h: "(0::int) \<le> 0" by simp
  have c: "cstr ''abc'' = ''abc''" by (simp add: cstr_def NUL_def)
  have "malloc example_env 256 = CHR ''x'' # map (heap_bytes example_env) [1..<256]"
    by (simp add: malloc_def example_env_def upt_conv_Cons)
  then have j: "cstr (malloc example_env 256) \<noteq> []"
    by (simp add: cstr_def NUL_def)
  from string_repeat_nonpositive_frame [OF h, of "''abc''" status_dot example_env]
    string_repeat_nonpositive_frame [OF h, of "malloc example_env 256" status_dot example_env]
    h c j
  show ?thesis by blast
qed



text \<open>
  Claim C9. The 256 bytes of the block \<^verbatim>\<open>text\<close> are never overrun. For every count,
  \<^verbatim>\<open>string_repeat\<close> with the status dot stores within the first \<open>64 * 3 + 1 = 193\<close> bytes of
  its destination: it succeeds on every destination of at least 193 bytes and leaves the
  bytes from offset 193 on as they were. So for every state the text of the renderer is
  built within the block, the string in it is at most 192 bytes long, and the store of
  line 186 stays within the block too.
\<close>

theorem text_buffer_never_overrun:
  "(193 \<le> length dest \<longrightarrow>
      (\<exists>d. string_repeat dest status_dot n = Some d \<and> length d = length dest \<and>
           drop 193 d = drop 193 dest)) \<and>
   (\<exists>t. indicator_text e g = Some t \<and> length t = 256 \<and> strlen t \<le> 192 \<and>
        drop 193 t = drop 193 (malloc e 256) \<and>
        (\<exists>t' c. auth_switch g t = Some (t', c) \<and> length t' = 256))"
proof -
  have first: "193 \<le> length dest \<longrightarrow>
      (\<exists>d. string_repeat dest status_dot n = Some d \<and> length d = length dest \<and>
           drop 193 d = drop 193 dest)"
    using string_repeat_dot [of dest n] by blast
  from indicator_text_Some [of e g]
  obtain t k where t: "indicator_text e g = Some t" and l: "length t = 256"
    and dr: "drop 193 t = drop 193 (malloc e 256)"
    and c: "cstr t = concat (replicate (nat (min k 64)) status_dot)"
    by blast
  have "strlen t = nat (min k 64) * 3"
    by (simp add: strlen_def c length_concat sum_list_replicate status_dot_def)
  then have s: "strlen t \<le> 192" by simp
  have "0 < length t" using l by simp
  from auth_switch_Some [OF this, of g] l
  have "\<exists>t' c. auth_switch g t = Some (t', c) \<and> length t' = 256" by auto
  with first t l s dr show ?thesis by blast
qed

text \<open>A destination of exactly 193 bytes and a count of a million.\<close>

theorem text_buffer_never_overrun_witness:
  "193 \<le> length (replicate 193 (CHR ''x'')) \<and>
   (\<exists>d. string_repeat (replicate 193 (CHR ''x'')) status_dot 1000000 = Some d \<and>
        length d = length (replicate 193 (CHR ''x'')) \<and>
        drop 193 d = drop 193 (replicate 193 (CHR ''x''))) \<and>
   (\<exists>t. indicator_text example_env (example_globals\<lparr>last_input_position := 1000000\<rparr>) = Some t \<and>
        length t = 256 \<and> strlen t \<le> 192)"
proof -
  have h: "193 \<le> length (replicate 193 (CHR ''x''))" by simp
  from text_buffer_never_overrun
         [of "replicate 193 (CHR ''x'')" 1000000 example_env
             "example_globals\<lparr>last_input_position := 1000000\<rparr>"] h
  show ?thesis by blast
qed

subsection \<open>The renderer\<close>

text \<open>
  Claim C1, as stated, lets the glyph count come from the live input length whenever the
  authentication state is neither a wrong password nor a failed lock. With an idle
  authentication state, the unlock state ``nothing to delete'' and three characters in
  the input buffer the indicator is drawn, and it shows no glyph.
\<close>

theorem nothing_to_delete_hides_input:
  "indicator_drawn (example_globals\<lparr>auth_state := STATE_AUTH_IDLE,
      unlock_state := STATE_NOTHING_TO_DELETE, input_position := 3\<rparr>) \<and>
   map_option (shown_text \<circ> on_ctx \<circ> snd)
     (draw_image_calls example_env (800, 600)
        (example_globals\<lparr>auth_state := STATE_AUTH_IDLE,
           unlock_state := STATE_NOTHING_TO_DELETE, input_position := 3\<rparr>)) = Some [] \<and>
   concat (replicate 3 status_dot) \<noteq> []"
proof -
  define s where "s = example_globals\<lparr>auth_state := STATE_AUTH_IDLE,
      unlock_state := STATE_NOTHING_TO_DELETE, input_position := 3\<rparr>"
  have dr: "indicator_drawn s"
    by (simp add: s_def indicator_drawn_def example_globals_def)
  have ok: "xr_screens s \<le> int (length (xr_resolutions s))"
    by (simp add: s_def example_globals_def)
  have st: "auth_state s = STATE_AUTH_IDLE \<and> unlock_state s = STATE_NOTHING_TO_DELETE"
    by (simp add: s_def)
  from draw_image_calls_drawn [OF ok dr, of example_env "(800, 600)"] st
  have "map_option (shown_text \<circ> on_ctx \<circ> snd) (draw_image_calls example_env (800, 600) s)
          = Some []"
    by auto
  moreover have "concat (replicate 3 status_dot) \<noteq> []"
    by (simp add: status_dot_def numeral_3_eq_3)
  ultimately show ?thesis using dr by (simp add: s_def)
qed

text \<open>
  Claim C1, amended. In every render that draws the indicator, with the table of screens
  as long as \<^verbatim>\<open>xr_screens\<close> says, the text shown is \<open>min n 64\<close> dots (none for \<open>n \<le> 0\<close>), where
  \<open>n\<close> is the remembered length, as this render leaves it, when the authentication state
  is a wrong password or a failed lock, and the live input length otherwise; except that
  with an idle authentication state and the unlock state ``nothing to delete'' no glyph
  is shown. In the scenario of a wrong password, a key pressed, an empty input buffer
  and a remembered length of 4 the renderer shows exactly 4 dots, in white.
\<close>

theorem glyph_count_source:
  assumes "indicator_drawn g" and "xr_screens g \<le> int (length (xr_resolutions g))"
  shows "\<exists>g' f. draw_image_calls e res g = Some (g', f) \<and>
           (auth_state g = STATE_AUTH_WRONG \<or> auth_state g = STATE_I3LOCK_LOCK_FAILED \<longrightarrow>
              shown_text (on_ctx f)
                = concat (replicate (nat (min (last_input_position g') 64)) status_dot)) \<and>
           (auth_state g \<noteq> STATE_AUTH_WRONG \<and> auth_state g \<noteq> STATE_I3LOCK_LOCK_FAILED \<and>
            \<not> (auth_state g = STATE_AUTH_IDLE \<and> unlock_state g = STATE_NOTHING_TO_DELETE) \<longrightarrow>
              shown_text (on_ctx f)
                = concat (replicate (nat (min (input_position g) 64)) status_dot)) \<and>
           (auth_state g = STATE_AUTH_IDLE \<and> unlock_state g = STATE_NOTHING_TO_DELETE \<longrightarrow>
              shown_text (on_ctx f) = []) \<and>
           (auth_state g = STATE_AUTH_WRONG \<and> unlock_state g = STATE_KEY_PRESSED \<and>
            input_position g = 0 \<and> last_input_position g = 4 \<longrightarrow>
              shown_text (on_ctx f) = concat (replicate 4 status_dot) \<and>
              text_colour None (on_ctx f) = Some (1, 1, 1))"
proof -
  from draw_image_calls_drawn [OF assms(2) assms(1), of e res]
  obtain g' f where r: "draw_image_calls e res g = Some (g', f)"
    and l: "last_input_position g'
             = (if input_position g > 0 then input_position g else last_input_position g)"
    and st: "shown_text (on_ctx f) =
             (if auth_state g = STATE_AUTH_IDLE \<and> unlock_state g = STATE_NOTHING_TO_DELETE
              then []
              else concat (replicate
                     (nat (min (if auth_state g = STATE_AUTH_WRONG \<or>
                                   auth_state g = STATE_I3LOCK_LOCK_FAILED
                                then last_input_position g'
                                else input_position g) 64))
                     status_dot))"
    and tc: "text_colour None (on_ctx f) =
             (if auth_state g = STATE_AUTH_VERIFY \<or> auth_state g = STATE_AUTH_LOCK
                then Some (to_float (84 / 255), to_float (110 / 255), to_float (122 / 255))
              else if auth_state g = STATE_I3LOCK_LOCK_FAILED \<or>
                      (auth_state g = STATE_AUTH_WRONG \<and>
                       unlock_value (unlock_state g) < unlock_value STATE_KEY_PRESSED)
                then Some (to_float (255 / 255), to_float (83 / 255), to_float (112 / 255))
              else Some (1, 1, 1))"
    by blast
  have a: "auth_state g = STATE_AUTH_WRONG \<or> auth_state g = STATE_I3LOCK_LOCK_FAILED \<longrightarrow>
              shown_text (on_ctx f)
                = concat (replicate (nat (min (last_input_position g') 64)) status_dot)"
    using st by auto
  have b: "auth_state g \<noteq> STATE_AUTH_WRONG \<and> auth_state g \<noteq> STATE_I3LOCK_LOCK_FAILED \<and>
            \<not> (auth_state g = STATE_AUTH_IDLE \<and> unlock_state g = STATE_NOTHING_TO_DELETE) \<longrightarrow>
              shown_text (on_ctx f)
                = concat (replicate (nat (min (input_position g) 64)) status_dot)"
    using st by auto
  have c: "auth_state g = STATE_AUTH_IDLE \<and> unlock_state g = STATE_NOTHING_TO_DELETE \<longrightarrow>
              shown_text (on_ctx f) = []"
    using st by simp
  have d: "auth_state g = STATE_AUTH_WRONG \<and> unlock_state g = STATE_KEY_PRESSED \<and>
            input_position g = 0 \<and> last_input_position g = 4 \<longrightarrow>
              shown_text (on_ctx f) = concat (replicate 4 status_dot) \<and>
              text_colour None (on_ctx f) = Some (1, 1, 1)"
    using st tc l by simp
  from r a b c d show ?thesis by blast
qed

text \<open>
  The scenario of the claim, on a root window of 800 by 600 pixels, with the calls that
  the render makes: four dots in white, centred on the window.
\<close>

theorem glyph_count_source_witness:
  "indicator_drawn example_globals \<and>
   xr_screens example_globals \<le> int (length (xr_resolutions example_globals)) \<and>
   auth_state example_globals = STATE_AUTH_WRONG \<and>
   unlock_state example_globals = STATE_KEY_PRESSED \<and>
   input_position example_globals = 0 \<and> last_input_position example_globals = 4 \<and>
   (\<exists>g' f. draw_image_calls example_env (800, 600) example_globals = Some (g', f) \<and>
      shown_text (on_ctx f) = concat (replicate 4 status_dot) \<and>
      text_colour None (on_ctx f) = Some (1, 1, 1)) \<and>
   map_option snd (draw_image_calls example_env (800, 600) example_globals) =
     Some \<lparr>on_ctx =
             [cairo_scale 1 1, cairo_set_source_rgb 0 0 0, cairo_select_font_face ''sans-serif'',
              cairo_set_font_size 80, cairo_set_source_rgb 1 1 1, cairo_move_to 394 295,
              cairo_show_text (status_dot @ status_dot @ status_dot @ status_dot),
              cairo_close_path],
           on_xcb =
             [cairo_set_source_rgb (1439385763257629 / 2251799813685248)
                (1439385763257629 / 2251799813685248) (1439385763257629 / 2251799813685248),
              cairo_rectangle 0 0 800 600, cairo_fill,
              cairo_set_source_surface output_surface 0 0,
              cairo_rectangle 0 0 800 600, cairo_fill]\<rparr>"
proof -
  have ev: "map_option snd (draw_image_calls example_env (800, 600) example_globals) =
     Some \<lparr>on_ctx =
             [cairo_scale 1 1, cairo_set_source_rgb 0 0 0, cairo_select_font_face ''sans-serif'',
              cairo_set_font_size 80, cairo_set_source_rgb 1 1 1, cairo_move_to 394 295,
              cairo_show_text (status_dot @ status_dot @ status_dot @ status_dot),
              cairo_close_path],
           on_xcb =
             [cairo_set_source_rgb (1439385763257629 / 2251799813685248)
                (1439385763257629 / 2251799813685248) (1439385763257629 / 2251799813685248),
              cairo_rectangle 0 0 800 600, cairo_fill,
              cairo_set_source_surface output_surface 0 0,
              cairo_rectangle 0 0 800 600, cairo_fill]\<rparr>"
    by code_simp
  have dr: "indicator_drawn example_globals"
    by (simp add: indicator_drawn_def example_globals_def)
  have ok: "xr_screens example_globals \<le> int (length (xr_resolutions example_globals))"
    by (simp add: example_globals_def)
  have sc: "auth_state example_globals = STATE_AUTH_WRONG \<and>
            unlock_state example_globals = STATE_KEY_PRESSED \<and>
            input_position example_globals = 0 \<and> last_input_position example_globals = 4"
    by (simp add: example_globals_def)
  from glyph_count_source [OF dr ok, of example_env "(800, 600)"] dr ok sc
  have "\<exists>g' f. draw_image_calls example_env (800, 600) example_globals = Some (g', f) \<and>
      shown_text (on_ctx f) = concat (replicate 4 status_dot) \<and>
      text_colour None (on_ctx f) = Some (1, 1, 1)"
    by blast
  with dr ok sc ev show ?thesis by blast
qed

text \<open>
  Claim C3. With an idle authentication state and the unlock state ``nothing to delete''
  the renderer shows no glyph, whatever the remembered length is; this holds for every
  input length, in particular for 0. Where the indicator is drawn, it is the default
  branch of the \<^verbatim>\<open>switch\<close> that empties the text.
\<close>

theorem nothing_to_delete_shows_no_glyph:
  assumes "auth_state g = STATE_AUTH_IDLE" and "unlock_state g = STATE_NOTHING_TO_DELETE"
    and "xr_screens g \<le> int (length (xr_resolutions g))"
  shows "(\<exists>g' f. draw_image_calls e res g = Some (g', f) \<and> shown_text (on_ctx f) = []) \<and>
         (0 < length t \<longrightarrow> (\<exists>t'. auth_switch g t = Some (t', cairo_set_source_rgb 1 1 1) \<and>
                                  cstr t' = []))"
proof -
  have first: "\<exists>g' f. draw_image_calls e res g = Some (g', f) \<and> shown_text (on_ctx f) = []"
  proof (cases "indicator_drawn g")
    case True
    from draw_image_calls_drawn [OF assms(3) True, of e res] assms(1,2)
    show ?thesis by auto
  next
    case False
    from draw_image_calls_not_drawn [OF False, of e res]
    show ?thesis by auto
  qed
  have second: "0 < length t \<longrightarrow>
      (\<exists>t'. auth_switch g t = Some (t', cairo_set_source_rgb 1 1 1) \<and> cstr t' = [])"
  proof
    assume "0 < length t"
    then have "strcpy t 0 [] = Some (NUL # tl t)" by (rule strcpy_empty)
    then show "\<exists>t'. auth_switch g t = Some (t', cairo_set_source_rgb 1 1 1) \<and> cstr t' = []"
      using assms(1,2) by (simp add: auth_switch_def cstr_NUL_Cons)
  qed
  from first second show ?thesis by blast
qed

text \<open>An empty input buffer and a remembered length of 7.\<close>

theorem nothing_to_delete_shows_no_glyph_witness:
  "auth_state (example_globals\<lparr>auth_state := STATE_AUTH_IDLE,
      unlock_state := STATE_NOTHING_TO_DELETE, last_input_position := 7\<rparr>) = STATE_AUTH_IDLE \<and>
   unlock_state (example_globals\<lparr>auth_state := STATE_AUTH_IDLE,
      unlock_state := STATE_NOTHING_TO_DELETE, last_input_position := 7\<rparr>)
     = STATE_NOTHING_TO_DELETE \<and>
   input_position (example_globals\<lparr>auth_state := STATE_AUTH_IDLE,
      unlock_state := STATE_NOTHING_TO_DELETE, last_input_position := 7\<rparr>) = 0 \<and>
   indicator_drawn (example_globals\<lparr>auth_state := STATE_AUTH_IDLE,
      unlock_state := STATE_NOTHING_TO_DELETE, last_input_position := 7\<rparr>) \<and>
   (\<exists>g' f. draw_image_calls example_env (800, 600)
              (example_globals\<lparr>auth_state := STATE_AUTH_IDLE,
                 unlock_state := STATE_NOTHING_TO_DELETE, last_input_position := 7\<rparr>)
              = Some (g', f) \<and>
           shown_text (on_ctx f) = []) \<and>
   0 < length (status_dot @ [NUL]) \<and>
   (\<exists>t'. auth_switch (example_globals\<lparr>auth_state := STATE_AUTH_IDLE,
                 unlock_state := STATE_NOTHING_TO_DELETE, last_input_position := 7\<rparr>)
              (status_dot @ [NUL]) = Some (t', cairo_set_source_rgb 1 1 1) \<and>
         cstr t' = [])"
proof -
  define s where "s = example_globals\<lparr>auth_state := STATE_AUTH_IDLE,
      unlock_state := STATE_NOTHING_TO_DELETE, last_input_position := 7\<rparr>"
  have a: "auth_state s = STATE_AUTH_IDLE" and u: "unlock_state s = STATE_NOTHING_TO_DELETE"
    by (simp_all add: s_def)
  have i: "input_position s = 0" by (simp add: s_def example_globals_def)
  have dr: "indicator_drawn s" by (simp add: s_def indicator_drawn_def example_globals_def)
  have ok: "xr_screens s \<le> int (length (xr_resolutions s))"
    by (simp add: s_def example_globals_def)
  have l: "0 < length (status_dot @ [NUL])" by simp
  from nothing_to_delete_shows_no_glyph [OF a u ok, of example_env "(800, 600)" "status_dot @ [NUL]"]
    a u i dr l
  show ?thesis unfolding s_def by blast
qed

text \<open>
  Claim C2, as stated, speaks of any sequence of renders. The assignment of lines 151 and
  152 is made only in a render that draws the indicator: with the indicator disabled,
  renders at the input lengths 5, 0, 0 and 3 leave the remembered length at 0.
\<close>

theorem disabled_indicator_remembers_nothing:
  "renders example_env (800, 600)
     (example_globals\<lparr>unlock_indicator := False, last_input_position := 0\<rparr>)
     [(5, STATE_KEY_PRESSED, STATE_AUTH_IDLE), (0, STATE_KEY_PRESSED, STATE_AUTH_IDLE),
      (0, STATE_KEY_PRESSED, STATE_AUTH_IDLE), (3, STATE_KEY_PRESSED, STATE_AUTH_IDLE)]
     = Some [0, 0, 0, 0]"
  by (simp add: draw_image_calls_def indicator_drawn_def example_globals_def Let_def)

text \<open>
  Claim C2, amended. A render changes the remembered length only by setting it to a
  strictly positive input length, and only when it draws the indicator; it never resets
  it. Across any sequence of renders in which every render with a strictly positive
  input length draws the indicator, the remembered length after each render is the
  latest strictly positive input length so far (or the initial value if there was
  none): the input lengths 5, 0, 0, 3 give the remembered lengths 5, 5, 5, 3.
\<close>

theorem remembered_length:
  assumes ok: "xr_screens g \<le> int (length (xr_resolutions g))"
    and drawn: "\<forall>(n, u, a) \<in> set xs.
                  0 < n \<longrightarrow>
                  unlock_indicator g \<and>
                  (unlock_value u \<ge> unlock_value STATE_KEY_PRESSED \<or>
                   auth_value a > auth_value STATE_AUTH_IDLE)"
  shows "(\<forall>g' f. draw_image_calls e res g = Some (g', f) \<longrightarrow>
            last_input_position g' = last_input_position g \<or>
            (indicator_drawn g \<and> 0 < input_position g \<and>
             last_input_position g' = input_position g)) \<and>
         renders e res g xs = Some (remembered (last_input_position g) (map fst xs)) \<and>
         (map fst xs = [5, 0, 0, 3] \<longrightarrow> renders e res g xs = Some [5, 5, 5, 3])"
proof -
  have step: "\<forall>g' f. draw_image_calls e res g = Some (g', f) \<longrightarrow>
            last_input_position g' = last_input_position g \<or>
            (indicator_drawn g \<and> 0 < input_position g \<and>
             last_input_position g' = input_position g)"
  proof (intro allI impI)
    fix g' f assume "draw_image_calls e res g = Some (g', f)"
    from draw_image_calls_globals [OF this]
    have "last_input_position g' =
            (if indicator_drawn g \<and> 0 < input_position g then input_position g
             else last_input_position g)"
      by (rule ssubst [where P = "\<lambda>x. last_input_position x = _"]) simp
    then show "last_input_position g' = last_input_position g \<or>
            (indicator_drawn g \<and> 0 < input_position g \<and>
             last_input_position g' = input_position g)"
      by (simp split: if_splits)
  qed
  have run: "renders e res g xs = Some (remembered (last_input_position g) (map fst xs))"
    using ok drawn
  proof (induction xs arbitrary: g)
    case Nil
    then show ?case by simp
  next
    case (Cons x xs)
    obtain n u a where x: "x = (n, u, a)" by (cases x)
    define g1 where "g1 = g\<lparr>input_position := n, unlock_state := u, auth_state := a\<rparr>"
    have dr: "indicator_drawn g1" if "0 < n"
      using Cons.prems(2) that by (simp add: g1_def indicator_drawn_def x)
    have ok1: "xr_screens g1 \<le> int (length (xr_resolutions g1))"
      using Cons.prems(1) by (simp add: g1_def)
    from draw_image_calls_total [OF ok1, of e res]
    obtain g' f where r: "draw_image_calls e res g1 = Some (g', f)" by blast
    note g' = draw_image_calls_globals [OF r]
    have "last_input_position g' =
            (if indicator_drawn g1 \<and> 0 < input_position g1 then input_position g1
             else last_input_position g1)"
      by (subst g') simp
    then have l: "last_input_position g' = (if 0 < n then n else last_input_position g)"
      using dr by (simp add: g1_def)
    have ind': "unlock_indicator g' = unlock_indicator g"
      by (subst g') (simp add: g1_def)
    have ok': "xr_screens g' \<le> int (length (xr_resolutions g'))"
      by (subst g', subst (2) g') (simp add: g1_def Cons.prems(1))
    have rest: "\<forall>(n, u, a) \<in> set xs.
                  0 < n \<longrightarrow>
                  unlock_indicator g' \<and>
                  (unlock_value u \<ge> unlock_value STATE_KEY_PRESSED \<or>
                   auth_value a > auth_value STATE_AUTH_IDLE)"
      using Cons.prems(2) by (simp add: ind')
    from Cons.IH [OF ok' rest]
    have "renders e res g' xs = Some (remembered (last_input_position g') (map fst xs))" .
    then show ?case
      using r l by (simp add: x g1_def [symmetric])
  qed
  have inst: "map fst xs = [5, 0, 0, 3] \<longrightarrow> renders e res g xs = Some [5, 5, 5, 3]"
    using run by simp
  from step run inst show ?thesis by blast
qed

text \<open>
  The four renders of the claim from a remembered length of 0: the first and the last
  after a key press, the second with nothing on the screen and the third after a wrong
  password.
\<close>

theorem remembered_length_witness:
  "xr_screens (example_globals\<lparr>last_input_position := 0\<rparr>)
     \<le> int (length (xr_resolutions (example_globals\<lparr>last_input_position := 0\<rparr>))) \<and>
   list_all (\<lambda>(n, u, a). n \<le> 0 \<or>
               unlock_indicator (example_globals\<lparr>last_input_position := 0\<rparr>) \<and>
               (unlock_value u \<ge> unlock_value STATE_KEY_PRESSED \<or>
                auth_value a > auth_value STATE_AUTH_IDLE))
     [(5 :: int, STATE_KEY_PRESSED, STATE_AUTH_IDLE), (0, STATE_STARTED, STATE_AUTH_IDLE),
      (0, STATE_STARTED, STATE_AUTH_WRONG), (3, STATE_KEY_PRESSED, STATE_AUTH_IDLE)] \<and>
   map fst [(5 :: int, STATE_KEY_PRESSED, STATE_AUTH_IDLE), (0, STATE_STARTED, STATE_AUTH_IDLE),
      (0, STATE_STARTED, STATE_AUTH_WRONG), (3, STATE_KEY_PRESSED, STATE_AUTH_IDLE)]
     = [5, 0, 0, 3] \<and>
   renders example_env (800, 600) (example_globals\<lparr>last_input_position := 0\<rparr>)
     [(5, STATE_KEY_PRESSED, STATE_AUTH_IDLE), (0, STATE_STARTED, STATE_AUTH_IDLE),
      (0, STATE_STARTED, STATE_AUTH_WRONG), (3, STATE_KEY_PRESSED, STATE_AUTH_IDLE)]
     = Some [5, 5, 5, 3]"
proof -
  define s where "s = example_globals\<lparr>last_input_position := 0\<rparr>"
  define xs where "xs =
     [(5 :: int, STATE_KEY_PRESSED, STATE_AUTH_IDLE), (0, STATE_STARTED, STATE_AUTH_IDLE),
      (0, STATE_STARTED, STATE_AUTH_WRONG), (3, STATE_KEY_PRESSED, STATE_AUTH_IDLE)]"
  have ind: "unlock_indicator s" by (simp add: s_def example_globals_def)
  have ok: "xr_screens s \<le> int (length (xr_resolutions s))"
    by (simp add: s_def example_globals_def)
  have dr: "\<forall>(n, u, a) \<in> set xs.
                  0 < n \<longrightarrow>
                  unlock_indicator s \<and>
                  (unlock_value u \<ge> unlock_value STATE_KEY_PRESSED \<or>
                   auth_value a > auth_value STATE_AUTH_IDLE)"
    by (simp add: xs_def ind)
  have la: "list_all (\<lambda>(n, u, a). n \<le> 0 \<or>
               unlock_indicator s \<and>
               (unlock_value u \<ge> unlock_value STATE_KEY_PRESSED \<or>
                auth_value a > auth_value STATE_AUTH_IDLE)) xs"
    by (simp add: xs_def ind)
  have m: "map fst xs = [5, 0, 0, 3]" by (simp add: xs_def)
  from remembered_length [OF ok dr, of example_env "(800, 600)"] m
  have "renders example_env (800, 600) s xs = Some [5, 5, 5, 3]" by blast
  with ok la m show ?thesis unfolding s_def xs_def by blast
qed

text \<open>
  Claim C6. The placement is a function of the table of screens, the selected index and
  the resolution alone. With no screen in the table the centre is half the resolution
  on each axis and the offset is \<open>(0, 0)\<close>. With screens in the table and an index within
  it, the centre is half the width and half the height of that screen and the offset is
  its \<open>x\<close> and \<open>y\<close>. With any other index, negative or too large, they are those of
  screen 0, and a diagnostic is written.
\<close>

theorem screen_placement_cases:
  assumes "n = int (length rs)"
  shows "(rs = [] \<longrightarrow>
            screen_placement n rs i res =
              Some (\<lparr>screen_center_x = int (fst res div 2), screen_center_y = int (snd res div 2),
                     screen_offset_x = 0, screen_offset_y = 0\<rparr>, [])) \<and>
         (rs \<noteq> [] \<and> 0 \<le> i \<and> i < n \<longrightarrow>
            screen_placement n rs i res =
              Some (\<lparr>screen_center_x = c_div (rect_width (rs ! nat i)) 2,
                     screen_center_y = c_div (rect_height (rs ! nat i)) 2,
                     screen_offset_x = rect_x (rs ! nat i),
                     screen_offset_y = rect_y (rs ! nat i)\<rparr>, [])) \<and>
         (rs \<noteq> [] \<and> (i < 0 \<or> n \<le> i) \<longrightarrow>
            (\<exists>dbg. dbg \<noteq> [] \<and>
               screen_placement n rs i res =
                 Some (\<lparr>screen_center_x = c_div (rect_width (rs ! 0)) 2,
                        screen_center_y = c_div (rect_height (rs ! 0)) 2,
                        screen_offset_x = rect_x (rs ! 0),
                        screen_offset_y = rect_y (rs ! 0)\<rparr>, dbg))) \<and>
         (0 \<le> rect_width (rs ! nat i) \<longrightarrow>
            c_div (rect_width (rs ! nat i)) 2 = rect_width (rs ! nat i) div 2)"
proof -
  have empty: "rs = [] \<longrightarrow>
            screen_placement n rs i res =
              Some (\<lparr>screen_center_x = int (fst res div 2), screen_center_y = int (snd res div 2),
                     screen_offset_x = 0, screen_offset_y = 0\<rparr>, [])"
    using assms by (simp add: screen_placement_def)
  have inside: "rs \<noteq> [] \<and> 0 \<le> i \<and> i < n \<longrightarrow>
            screen_placement n rs i res =
              Some (\<lparr>screen_center_x = c_div (rect_width (rs ! nat i)) 2,
                     screen_center_y = c_div (rect_height (rs ! nat i)) 2,
                     screen_offset_x = rect_x (rs ! nat i),
                     screen_offset_y = rect_y (rs ! nat i)\<rparr>, [])"
    using assms by (simp add: screen_placement_def array_at_def)
  have outside: "rs \<noteq> [] \<and> (i < 0 \<or> n \<le> i) \<longrightarrow>
            (\<exists>dbg. dbg \<noteq> [] \<and>
               screen_placement n rs i res =
                 Some (\<lparr>screen_center_x = c_div (rect_width (rs ! 0)) 2,
                        screen_center_y = c_div (rect_height (rs ! 0)) 2,
                        screen_offset_x = rect_x (rs ! 0),
                        screen_offset_y = rect_y (rs ! 0)\<rparr>, dbg))"
    using assms by (auto simp: screen_placement_def array_at_def)
  have half: "0 \<le> rect_width (rs ! nat i) \<longrightarrow>
            c_div (rect_width (rs ! nat i)) 2 = rect_width (rs ! nat i) div 2"
    by (simp add: c_div_def)
  from empty inside outside half show ?thesis by blast
qed

text \<open>
  No screen; two screens and the index 1; two screens and the indices 5 and \<open>-1\<close>.
\<close>

theorem screen_placement_cases_witness:
  "(0 :: int) = int (length ([] :: Rect list)) \<and> 2 = int (length example_screens) \<and>
   screen_placement 0 [] 1 (800, 600) =
     Some (\<lparr>screen_center_x = 400, screen_center_y = 300,
            screen_offset_x = 0, screen_offset_y = 0\<rparr>, []) \<and>
   screen_placement 2 example_screens 1 (3201, 1080) =
     Some (\<lparr>screen_center_x = 640, screen_center_y = 512,
            screen_offset_x = 1920, screen_offset_y = 56\<rparr>, []) \<and>
   (\<exists>dbg. dbg \<noteq> [] \<and>
      screen_placement 2 example_screens 5 (3201, 1080) =
        Some (\<lparr>screen_center_x = 960, screen_center_y = 540,
               screen_offset_x = 0, screen_offset_y = 0\<rparr>, dbg)) \<and>
   (\<exists>dbg. dbg \<noteq> [] \<and>
      screen_placement 2 example_screens (- 1) (3201, 1080) =
        Some (\<lparr>screen_center_x = 960, screen_center_y = 540,
               screen_offset_x = 0, screen_offset_y = 0\<rparr>, dbg))"
proof -
  have n0: "(0 :: int) = int (length ([] :: Rect list))" by simp
  have n2: "2 = int (length example_screens)" by (simp add: example_screens_def)
  have ne: "example_screens \<noteq> []" by (simp add: example_screens_def)
  have s1: "example_screens ! Suc 0 =
              \<lparr>rect_x = 1920, rect_y = 56, rect_width = 1281, rect_height = 1024\<rparr>"
    and s0: "example_screens ! 0 =
              \<lparr>rect_x = 0, rect_y = 0, rect_width = 1920, rect_height = 1080\<rparr>"
    by (simp_all add: example_screens_def)
  from screen_placement_cases [OF n0, of 1 "(800, 600)"]
  have a: "screen_placement 0 [] 1 (800, 600) =
     Some (\<lparr>screen_center_x = 400, screen_center_y = 300,
            screen_offset_x = 0, screen_offset_y = 0\<rparr>, [])"
    by simp
  from screen_placement_cases [OF n2, of 1 "(3201, 1080)"] ne
  have b: "screen_placement 2 example_screens 1 (3201, 1080) =
     Some (\<lparr>screen_center_x = 640, screen_center_y = 512,
            screen_offset_x = 1920, screen_offset_y = 56\<rparr>, [])"
    by (simp add: s1 c_div_def)
  from screen_placement_cases [OF n2, of 5 "(3201, 1080)"] ne
  have c: "\<exists>dbg. dbg \<noteq> [] \<and>
      screen_placement 2 example_screens 5 (3201, 1080) =
        Some (\<lparr>screen_center_x = 960, screen_center_y = 540,
               screen_offset_x = 0, screen_offset_y = 0\<rparr>, dbg)"
    by (simp add: s0 c_div_def)
  from screen_placement_cases [OF n2, of "- 1" "(3201, 1080)"] ne
  have d: "\<exists>dbg. dbg \<noteq> [] \<and>
      screen_placement 2 example_screens (- 1) (3201, 1080) =
        Some (\<lparr>screen_center_x = 960, screen_center_y = 540,
               screen_offset_x = 0, screen_offset_y = 0\<rparr>, dbg)"
    by (simp add: s0 c_div_def)
  from n0 n2 a b c d show ?thesis by blast
qed

subsection \<open>The pixmap cache and the redraw\<close>

text \<open>
  Claim C5. With the handle at \<^verbatim>\<open>XCB_NONE\<close>, \<^verbatim>\<open>redraw_screen\<close> allocates a pixmap that the
  server did not hold, of the size of the current resolution, and stores its id, which
  is not \<^verbatim>\<open>XCB_NONE\<close>, in the handle. With any other handle it keeps the handle and
  allocates nothing: the server holds the same pixmaps of the same sizes as before,
  whatever the resolution is, and only the pixmap of the handle is drawn on. \<^verbatim>\<open>free_bg_pixmap\<close> releases the pixmap of the handle, leaves
  the other pixmaps alone and sets the handle to \<^verbatim>\<open>XCB_NONE\<close>; with the handle at
  \<^verbatim>\<open>XCB_NONE\<close> already it changes nothing. After \<^verbatim>\<open>free_bg_pixmap\<close> the next redraw allocates
  a new pixmap of the size of the current resolution.
\<close>

theorem pixmap_cache:
  assumes "xr_screens g \<le> int (length (xr_resolutions g))"
  shows "(bg_pixmap g = XCB_NONE \<longrightarrow>
            (\<exists>g' srv' pm. redraw_screen gfx e (g, srv) = Some (g', srv') \<and>
               bg_pixmap g' \<noteq> XCB_NONE \<and>
               map_of (pixmaps srv) (bg_pixmap g') = None \<and>
               map_of (pixmaps srv') (bg_pixmap g') = Some pm \<and>
               pm_size pm = last_resolution g \<and>
               (\<forall>q. q \<noteq> bg_pixmap g' \<longrightarrow> map_of (pixmaps srv') q = map_of (pixmaps srv) q))) \<and>
         (bg_pixmap g \<noteq> XCB_NONE \<longrightarrow>
            (\<exists>g' srv'. redraw_screen gfx e (g, srv) = Some (g', srv') \<and>
               bg_pixmap g' = bg_pixmap g \<and> pixmap_sizes srv' = pixmap_sizes srv \<and>
               (\<forall>q. q \<noteq> bg_pixmap g \<longrightarrow> map_of (pixmaps srv') q = map_of (pixmaps srv) q))) \<and>
         (\<exists>g' srv'. free_bg_pixmap (g, srv) = (g', srv') \<and> bg_pixmap g' = XCB_NONE \<and>
            (bg_pixmap g \<noteq> XCB_NONE \<longrightarrow> map_of (pixmaps srv') (bg_pixmap g) = None) \<and>
            (\<forall>q. q \<noteq> bg_pixmap g \<longrightarrow> map_of (pixmaps srv') q = map_of (pixmaps srv) q)) \<and>
         (bg_pixmap g = XCB_NONE \<longrightarrow> free_bg_pixmap (g, srv) = (g, srv)) \<and>
         (\<exists>g' srv' pm. redraw_screen gfx e (free_bg_pixmap (g, srv)) = Some (g', srv') \<and>
            bg_pixmap g' \<noteq> XCB_NONE \<and>
            map_of (pixmaps (snd (free_bg_pixmap (g, srv)))) (bg_pixmap g') = None \<and>
            map_of (pixmaps srv') (bg_pixmap g') = Some pm \<and>
            pm_size pm = last_resolution g)"
proof -
  have empty: "bg_pixmap g = XCB_NONE \<longrightarrow>
            (\<exists>g' srv' pm. redraw_screen gfx e (g, srv) = Some (g', srv') \<and>
               bg_pixmap g' \<noteq> XCB_NONE \<and>
               map_of (pixmaps srv) (bg_pixmap g') = None \<and>
               map_of (pixmaps srv') (bg_pixmap g') = Some pm \<and>
               pm_size pm = last_resolution g \<and>
               (\<forall>q. q \<noteq> bg_pixmap g' \<longrightarrow> map_of (pixmaps srv') q = map_of (pixmaps srv) q))"
    using redraw_screen_allocates [OF assms, of gfx e srv] by blast
  have again: "\<exists>g' srv' pm. redraw_screen gfx e (free_bg_pixmap (g, srv)) = Some (g', srv') \<and>
            bg_pixmap g' \<noteq> XCB_NONE \<and>
            map_of (pixmaps (snd (free_bg_pixmap (g, srv)))) (bg_pixmap g') = None \<and>
            map_of (pixmaps srv') (bg_pixmap g') = Some pm \<and>
            pm_size pm = last_resolution g"
  proof -
    define g0 where "g0 = g\<lparr>bg_pixmap := XCB_NONE\<rparr>"
    have f: "free_bg_pixmap (g, srv) = (g0, xcb_free_pixmap srv (bg_pixmap g))"
      by (simp add: free_bg_pixmap_def g0_def)
    have ok0: "xr_screens g0 \<le> int (length (xr_resolutions g0))"
      using assms by (simp add: g0_def)
    have none0: "bg_pixmap g0 = XCB_NONE" by (simp add: g0_def)
    from redraw_screen_allocates [OF ok0 none0, of gfx e "xcb_free_pixmap srv (bg_pixmap g)"]
    show ?thesis unfolding f by (auto simp: g0_def)
  qed
  have allocated: "bg_pixmap g \<noteq> XCB_NONE \<longrightarrow>
            (\<exists>g' srv'. redraw_screen gfx e (g, srv) = Some (g', srv') \<and>
               bg_pixmap g' = bg_pixmap g \<and> pixmap_sizes srv' = pixmap_sizes srv \<and>
               (\<forall>q. q \<noteq> bg_pixmap g \<longrightarrow> map_of (pixmaps srv') q = map_of (pixmaps srv) q))"
  proof
    assume some: "bg_pixmap g \<noteq> XCB_NONE"
    define g2 where "g2 = DEBUG [Dbg_redraw_screen (unlock_state g) (auth_state g)] g"
    have "xr_screens g2 \<le> int (length (xr_resolutions g2))"
      using assms by (simp add: g2_def)
    from draw_image_calls_total [OF this, of e "last_resolution g"]
    obtain g3 f where r: "draw_image_calls e (last_resolution g) g2 = Some (g3, f)" by blast
    have b3: "bg_pixmap g3 = bg_pixmap g"
      using draw_image_calls_bg_pixmap [OF r] by (simp add: g2_def)
    define srv3 where "srv3 = xcb_clear_area (xcb_change_window_attributes
                            (paint_pixmap gfx (last_resolution g) f (bg_pixmap g) srv) (bg_pixmap g))"
    have bp2: "bg_pixmap g2 = bg_pixmap g" by (simp add: g2_def)
    have "redraw_screen gfx e (g, srv) =
            (case draw_image_calls e (last_resolution g) g2 of
               None \<Rightarrow> None
             | Some (g3, f) \<Rightarrow>
                 Some (g3, xcb_clear_area
                             (xcb_change_window_attributes
                                (paint_pixmap gfx (last_resolution g) f (bg_pixmap g2) srv)
                                (bg_pixmap g2))))"
      unfolding redraw_screen_unfold g2_def using some
      by (simp add: Let_def)
    then have red: "redraw_screen gfx e (g, srv) = Some (g3, srv3)"
      using r bp2 by (simp add: srv3_def)
    have "pixmap_sizes srv3 = pixmap_sizes (paint_pixmap gfx (last_resolution g) f (bg_pixmap g) srv)"
      by (simp add: pixmap_sizes_def srv3_def)
    then have "pixmap_sizes srv3 = pixmap_sizes srv" by (simp add: paint_pixmap_sizes)
    moreover have "\<forall>q. q \<noteq> bg_pixmap g \<longrightarrow> map_of (pixmaps srv3) q = map_of (pixmaps srv) q"
      by (simp add: srv3_def paint_pixmap_lookup)
    ultimately show "\<exists>g' srv'. redraw_screen gfx e (g, srv) = Some (g', srv') \<and>
               bg_pixmap g' = bg_pixmap g \<and> pixmap_sizes srv' = pixmap_sizes srv \<and>
               (\<forall>q. q \<noteq> bg_pixmap g \<longrightarrow> map_of (pixmaps srv') q = map_of (pixmaps srv) q)"
      using red b3 by blast
  qed
  have release: "\<exists>g' srv'. free_bg_pixmap (g, srv) = (g', srv') \<and> bg_pixmap g' = XCB_NONE \<and>
            (bg_pixmap g \<noteq> XCB_NONE \<longrightarrow> map_of (pixmaps srv') (bg_pixmap g) = None) \<and>
            (\<forall>q. q \<noteq> bg_pixmap g \<longrightarrow> map_of (pixmaps srv') q = map_of (pixmaps srv) q)"
    by (simp add: free_bg_pixmap_def xcb_free_pixmap_lookup)
  have noop: "bg_pixmap g = XCB_NONE \<longrightarrow> free_bg_pixmap (g, srv) = (g, srv)"
    by (simp add: free_bg_pixmap_def xcb_free_pixmap_def)
  from empty allocated release noop again show ?thesis by blast
qed

text \<open>
  A first redraw on a server without pixmaps; a redraw at 800 by 600 pixels with the
  handle on a pixmap of 640 by 480 pixels; and the release of that pixmap.
\<close>

theorem pixmap_cache_witness:
  "xr_screens example_globals \<le> int (length (xr_resolutions example_globals)) \<and>
   bg_pixmap example_globals = XCB_NONE \<and> last_resolution example_globals = (800, 600) \<and>
   (\<exists>g' srv' pm. redraw_screen example_graphics example_env (example_globals, example_server)
                    = Some (g', srv') \<and>
      bg_pixmap g' \<noteq> XCB_NONE \<and> map_of (pixmaps srv') (bg_pixmap g') = Some pm \<and>
      pm_size pm = (800, 600)) \<and>
   free_bg_pixmap (example_globals, example_server) = (example_globals, example_server) \<and>
   bg_pixmap (example_globals\<lparr>bg_pixmap := 7\<rparr>) \<noteq> XCB_NONE \<and>
   (\<exists>g' srv'. redraw_screen example_graphics example_env
                 (example_globals\<lparr>bg_pixmap := 7\<rparr>, stale_server) = Some (g', srv') \<and>
      bg_pixmap g' = 7 \<and> pixmap_sizes srv' = [(7, (640, 480))]) \<and>
   (\<exists>g' srv'. free_bg_pixmap (example_globals\<lparr>bg_pixmap := 7\<rparr>, stale_server) = (g', srv') \<and>
      bg_pixmap g' = XCB_NONE \<and> map_of (pixmaps srv') 7 = None) \<and>
   (\<exists>g' srv' pm. redraw_screen example_graphics example_env
                    (free_bg_pixmap (example_globals\<lparr>bg_pixmap := 7\<rparr>, stale_server))
                    = Some (g', srv') \<and>
      map_of (pixmaps srv') (bg_pixmap g') = Some pm \<and> pm_size pm = (800, 600))"
proof -
  define s where "s = example_globals\<lparr>bg_pixmap := 7\<rparr>"
  have ok: "xr_screens example_globals \<le> int (length (xr_resolutions example_globals))"
    and none: "bg_pixmap example_globals = XCB_NONE"
    and res: "last_resolution example_globals = (800, 600)"
    by (simp_all add: example_globals_def)
  have ok7: "xr_screens s \<le> int (length (xr_resolutions s))"
    and some: "bg_pixmap s \<noteq> XCB_NONE" and b7: "bg_pixmap s = 7"
    by (simp_all add: s_def example_globals_def XCB_NONE_def)
  have sz: "pixmap_sizes stale_server = [(7, (640, 480))]"
    by (simp add: pixmap_sizes_def stale_server_def)
  from pixmap_cache [OF ok, of example_graphics example_env example_server] none res
  have a: "\<exists>g' srv' pm. redraw_screen example_graphics example_env (example_globals, example_server)
                    = Some (g', srv') \<and>
      bg_pixmap g' \<noteq> XCB_NONE \<and> map_of (pixmaps srv') (bg_pixmap g') = Some pm \<and>
      pm_size pm = (800, 600)"
    and d: "free_bg_pixmap (example_globals, example_server) = (example_globals, example_server)"
    by auto
  from pixmap_cache [OF ok7, of example_graphics example_env stale_server] some b7 sz
  have b: "\<exists>g' srv'. redraw_screen example_graphics example_env (s, stale_server) = Some (g', srv') \<and>
      bg_pixmap g' = 7 \<and> pixmap_sizes srv' = [(7, (640, 480))]"
    and c: "\<exists>g' srv'. free_bg_pixmap (s, stale_server) = (g', srv') \<and>
      bg_pixmap g' = XCB_NONE \<and> map_of (pixmaps srv') 7 = None"
    by auto
  have res7: "last_resolution s = (800, 600)" by (simp add: s_def example_globals_def)
  from pixmap_cache [OF ok7, of example_graphics example_env stale_server] res7
  have f: "\<exists>g' srv' pm. redraw_screen example_graphics example_env
                    (free_bg_pixmap (s, stale_server)) = Some (g', srv') \<and>
      map_of (pixmaps srv') (bg_pixmap g') = Some pm \<and> pm_size pm = (800, 600)"
    by auto
  from ok none res a d some b c f show ?thesis unfolding s_def by blast
qed

text \<open>
  Claim C7. Let filling the whole surface with a colour forget what the pixmap held, as
  the comment of lines 120 to 122 expects of Cairo, and let the cache be empty or hold a
  pixmap of the current resolution. Then for every state two calls of \<^verbatim>\<open>redraw_screen\<close> in
  a row, with nothing changed in between, leave the same backing pixmap with the same
  contents, and the window shows the same contents after both. The block \<^verbatim>\<open>text\<close> of the
  first call is never freed, so the second call gets another block from \<^verbatim>\<open>malloc\<close>: its
  bytes \<open>h\<close> are arbitrary, and need not be those that the first call got.
\<close>

theorem redraw_twice_same_pixmap:
  assumes clr: "clears_first gfx"
    and coh: "bg_pixmap g = XCB_NONE \<or>
              (\<exists>pm. map_of (pixmaps srv) (bg_pixmap g) = Some pm \<and> pm_size pm = last_resolution g)"
    and ok: "xr_screens g \<le> int (length (xr_resolutions g))"
  shows "\<exists>g1 srv1 g2 srv2 pm.
           redraw_screen gfx e (g, srv) = Some (g1, srv1) \<and>
           redraw_screen gfx (e\<lparr>heap_bytes := h\<rparr>) (g1, srv1) = Some (g2, srv2) \<and>
           bg_pixmap g1 \<noteq> XCB_NONE \<and> bg_pixmap g2 = bg_pixmap g1 \<and>
           map_of (pixmaps srv1) (bg_pixmap g1) = Some pm \<and>
           map_of (pixmaps srv2) (bg_pixmap g2) = Some pm \<and>
           win_contents srv1 = Some (pm_contents pm) \<and>
           win_contents srv2 = Some (pm_contents pm)"
proof -
  define res where "res = last_resolution g"
  have "\<exists>ga srva p pma.
          redraw_screen gfx e (g, srv) =
            (case draw_image_calls e res ga of
               None \<Rightarrow> None
             | Some (g3, f) \<Rightarrow>
                 Some (g3, xcb_clear_area
                             (xcb_change_window_attributes (paint_pixmap gfx res f p srva) p))) \<and>
          p \<noteq> XCB_NONE \<and> bg_pixmap ga = p \<and> last_resolution ga = res \<and>
          xr_screens ga \<le> int (length (xr_resolutions ga)) \<and>
          map_of (pixmaps srva) p = Some pma \<and> pm_size pma = res"
  proof (cases "bg_pixmap g = XCB_NONE")
    case True
    define p where "p = xcb_generate_id srv"
    define ga where "ga = (DEBUG [Dbg_allocating_pixmap (fst (last_resolution g))
                              (snd (last_resolution g))]
                       (DEBUG [Dbg_redraw_screen (unlock_state g) (auth_state g)] g))
                      \<lparr>bg_pixmap := p\<rparr>"
    define pma :: "'a pixmap" where
      "pma = \<lparr>pm_size = last_resolution g, pm_contents = solid gfx (last_resolution g) (color g)\<rparr>"
    define srva where "srva = srv\<lparr>pixmaps := (p, pma) # pixmaps srv\<rparr>"
    have "redraw_screen gfx e (g, srv) =
            (case draw_image_calls e res ga of
               None \<Rightarrow> None
             | Some (g3, f) \<Rightarrow>
                 Some (g3, xcb_clear_area
                             (xcb_change_window_attributes (paint_pixmap gfx res f p srva) p)))"
      unfolding redraw_screen_empty [OF True] res_def ga_def srva_def pma_def p_def ..
    moreover have "p \<noteq> XCB_NONE" unfolding p_def by (rule xcb_generate_id_not_none)
    moreover have "bg_pixmap ga = p" "last_resolution ga = res"
      "xr_screens ga \<le> int (length (xr_resolutions ga))"
      using ok by (simp_all add: ga_def res_def)
    moreover have "map_of (pixmaps srva) p = Some pma" "pm_size pma = res"
      by (simp_all add: srva_def pma_def res_def)
    ultimately show ?thesis by blast
  next
    case False
    with coh obtain pma where pma: "map_of (pixmaps srv) (bg_pixmap g) = Some pma"
      "pm_size pma = res"
      by (auto simp: res_def)
    define ga where "ga = DEBUG [Dbg_redraw_screen (unlock_state g) (auth_state g)] g"
    have "redraw_screen gfx e (g, srv) =
            (case draw_image_calls e res ga of
               None \<Rightarrow> None
             | Some (g3, f) \<Rightarrow>
                 Some (g3, xcb_clear_area
                             (xcb_change_window_attributes
                                (paint_pixmap gfx res f (bg_pixmap g) srv) (bg_pixmap g))))"
      unfolding redraw_screen_allocated [OF False] res_def ga_def ..
    moreover have "bg_pixmap ga = bg_pixmap g" "last_resolution ga = res"
      "xr_screens ga \<le> int (length (xr_resolutions ga))"
      using ok by (simp_all add: ga_def res_def)
    ultimately show ?thesis using False pma by blast
  qed
  then obtain ga srva p pma where
    red1: "redraw_screen gfx e (g, srv) =
            (case draw_image_calls e res ga of
               None \<Rightarrow> None
             | Some (g3, f) \<Rightarrow>
                 Some (g3, xcb_clear_area
                             (xcb_change_window_attributes (paint_pixmap gfx res f p srva) p)))"
    and p: "p \<noteq> XCB_NONE" and bga: "bg_pixmap ga = p" and rga: "last_resolution ga = res"
    and oka: "xr_screens ga \<le> int (length (xr_resolutions ga))"
    and pma: "map_of (pixmaps srva) p = Some pma" and sza: "pm_size pma = res"
    by blast
  from draw_image_calls_total [OF oka, of e res]
  obtain g1 f where r1: "draw_image_calls e res ga = Some (g1, f)" by blast
  define srv1 where "srv1 = xcb_clear_area
                             (xcb_change_window_attributes (paint_pixmap gfx res f p srva) p)"
  define pm1 where "pm1 = pma\<lparr>pm_contents := render gfx res f pma\<rparr>"
  have first: "redraw_screen gfx e (g, srv) = Some (g1, srv1)"
    by (simp add: red1 r1 srv1_def)
  have b1: "bg_pixmap g1 = p"
    using draw_image_calls_bg_pixmap [OF r1] bga by simp
  have l1: "map_of (pixmaps srv1) p = Some pm1"
    by (simp add: srv1_def paint_pixmap_lookup pma pm1_def)
  have w1: "win_contents srv1 = Some (pm_contents pm1)"
    by (simp add: srv1_def paint_pixmap_lookup pma pm1_def)
  from draw_image_calls_again [OF r1, of "[Dbg_redraw_screen (unlock_state g1) (auth_state g1)]"]
  obtain g2 where r2: "draw_image_calls e res
                         (DEBUG [Dbg_redraw_screen (unlock_state g1) (auth_state g1)] g1)
                       = Some (g2, f)"
    and b2: "bg_pixmap g2 = bg_pixmap ga"
    by blast
  have "draw_image_calls (e\<lparr>heap_bytes := h\<rparr>) res
          (DEBUG [Dbg_redraw_screen (unlock_state g1) (auth_state g1)] g1)
        = draw_image_calls e res (DEBUG [Dbg_redraw_screen (unlock_state g1) (auth_state g1)] g1)"
    by (rule draw_image_calls_heap) simp_all
  with r2 have r2': "draw_image_calls (e\<lparr>heap_bytes := h\<rparr>) res
                       (DEBUG [Dbg_redraw_screen (unlock_state g1) (auth_state g1)] g1)
                     = Some (g2, f)"
    by simp
  have res1: "last_resolution g1 = res"
    by (subst draw_image_calls_globals [OF r1]) (simp add: rga)
  define srv2 where "srv2 = xcb_clear_area
                             (xcb_change_window_attributes (paint_pixmap gfx res f p srv1) p)"
  have "bg_pixmap g1 \<noteq> XCB_NONE" using b1 p by simp
  from redraw_screen_allocated [OF this, of gfx "e\<lparr>heap_bytes := h\<rparr>" srv1]
  have second: "redraw_screen gfx (e\<lparr>heap_bytes := h\<rparr>) (g1, srv1) = Some (g2, srv2)"
    by (simp add: res1 r2' b1 srv2_def)
  have "starts_with_clear res (on_xcb f)" by (rule draw_image_calls_clears [OF r1])
  moreover have "pm_size pm1 = res" by (simp add: pm1_def sza)
  ultimately have "render gfx res f pm1 = render gfx res f pma"
    using clr sza unfolding clears_first_def by blast
  then have same: "pm1\<lparr>pm_contents := render gfx res f pm1\<rparr> = pm1"
    by (simp add: pm1_def)
  have l2: "map_of (pixmaps srv2) p = Some pm1"
    by (simp add: srv2_def paint_pixmap_lookup l1 same)
  have w2: "win_contents srv2 = Some (pm_contents pm1)"
    by (simp add: srv2_def paint_pixmap_lookup l1 same)
  from first second p b1 b2 bga l1 l2 w1 w2 show ?thesis by auto
qed

text \<open>
  From the scenario state with an empty cache, on a server without pixmaps, where the
  contents of a pixmap are the calls of the frame that drew them; the block of the first
  call holds the bytes \<open>x\<close>, that of the second the bytes \<open>y\<close>.
\<close>

theorem redraw_twice_same_pixmap_witness:
  "clears_first example_graphics \<and> bg_pixmap example_globals = XCB_NONE \<and>
   xr_screens example_globals \<le> int (length (xr_resolutions example_globals)) \<and>
   (\<exists>g1 srv1 g2 srv2 pm.
      redraw_screen example_graphics example_env (example_globals, example_server)
        = Some (g1, srv1) \<and>
      redraw_screen example_graphics (example_env\<lparr>heap_bytes := (\<lambda>i. CHR ''y'')\<rparr>) (g1, srv1)
        = Some (g2, srv2) \<and>
      bg_pixmap g1 \<noteq> XCB_NONE \<and> bg_pixmap g2 = bg_pixmap g1 \<and>
      map_of (pixmaps srv1) (bg_pixmap g1) = Some pm \<and>
      map_of (pixmaps srv2) (bg_pixmap g2) = Some pm \<and>
      win_contents srv1 = Some (pm_contents pm) \<and>
      win_contents srv2 = Some (pm_contents pm))"
proof -
  have clr: "clears_first example_graphics"
    by (simp add: clears_first_def example_graphics_def)
  have none: "bg_pixmap example_globals = XCB_NONE"
    and ok: "xr_screens example_globals \<le> int (length (xr_resolutions example_globals))"
    by (simp_all add: example_globals_def)
  have coh: "bg_pixmap example_globals = XCB_NONE \<or>
              (\<exists>pm. map_of (pixmaps example_server) (bg_pixmap example_globals) = Some pm \<and>
                    pm_size pm = last_resolution example_globals)"
    using none by simp
  from redraw_twice_same_pixmap [OF clr coh ok, of example_env "\<lambda>i. CHR ''y''"] clr none ok
  show ?thesis by blast
qed

subsection \<open>The colour parser\<close>

text \<open>
  Claim C8. For every string of six hexadecimal digits the three fractions that the
  renderer passes to Cairo, each the quotient in \<^verbatim>\<open>double\<close> of the value of a group of two
  digits by 255, lie between 0 and 1; and each fraction, multiplied by 255 and rounded
  to the nearest integer, is the value of its group again, whether the product is
  taken exactly or in \<^verbatim>\<open>double\<close>.
\<close>

theorem colour_round_trip:
  assumes "length c = 6" and "\<forall>ch \<in> set c. hex_digit ch \<noteq> None"
  shows "\<exists>r g b. background_rgb c = (r, g, b) \<and>
           0 \<le> r \<and> r \<le> 1 \<and> 0 \<le> g \<and> g \<le> 1 \<and> 0 \<le> b \<and> b \<le> 1 \<and>
           round (r * 255) = int (16 * the (hex_digit (c ! 0)) + the (hex_digit (c ! 1))) \<and>
           round (g * 255) = int (16 * the (hex_digit (c ! 2)) + the (hex_digit (c ! 3))) \<and>
           round (b * 255) = int (16 * the (hex_digit (c ! 4)) + the (hex_digit (c ! 5))) \<and>
           round (to_double (r * 255))
             = int (16 * the (hex_digit (c ! 0)) + the (hex_digit (c ! 1))) \<and>
           round (to_double (g * 255))
             = int (16 * the (hex_digit (c ! 2)) + the (hex_digit (c ! 3))) \<and>
           round (to_double (b * 255))
             = int (16 * the (hex_digit (c ! 4)) + the (hex_digit (c ! 5)))"
proof -
  have hex: "\<exists>d. hex_digit (c ! i) = Some d" if "i < 6" for i
  proof -
    have "c ! i \<in> set c" using assms(1) that by simp
    with assms(2) show ?thesis by auto
  qed
  obtain d0 d1 d2 d3 d4 d5 where d:
    "hex_digit (c ! 0) = Some d0" "hex_digit (c ! 1) = Some d1" "hex_digit (c ! 2) = Some d2"
    "hex_digit (c ! 3) = Some d3" "hex_digit (c ! 4) = Some d4" "hex_digit (c ! 5) = Some d5"
    using hex [of 0] hex [of 1] hex [of 2] hex [of 3] hex [of 4] hex [of 5] by auto
  have rgb: "rgb16 c = (16 * d0 + d1, 16 * d2 + d3, 16 * d4 + d5)"
    by (rule rgb16_hex [OF assms(1) d])
  have lt: "16 * d0 + d1 < 256" "16 * d2 + d3 < 256" "16 * d4 + d5 < 256"
    using hex_digit_less [OF d(1)] hex_digit_less [OF d(2)] hex_digit_less [OF d(3)]
      hex_digit_less [OF d(4)] hex_digit_less [OF d(5)] hex_digit_less [OF d(6)]
    by simp_all
  define r :: rat where "r = to_double (of_nat (16 * d0 + d1) / 255)"
  define g :: rat where "g = to_double (of_nat (16 * d2 + d3) / 255)"
  define b :: rat where "b = to_double (of_nat (16 * d4 + d5) / 255)"
  have bg: "background_rgb c = (r, g, b)"
    by (simp add: background_rgb_def rgb r_def g_def b_def)
  have th: "the (hex_digit (c ! 0)) = d0" "the (hex_digit (c ! 1)) = d1"
    "the (hex_digit (c ! 2)) = d2" "the (hex_digit (c ! 3)) = d3"
    "the (hex_digit (c ! 4)) = d4" "the (hex_digit (c ! 5)) = d5"
    using d by simp_all
  have fr: "0 \<le> r \<and> r \<le> 1 \<and> round (r * 255) = int (16 * d0 + d1) \<and>
            round (to_double (r * 255)) = int (16 * d0 + d1)"
    unfolding r_def by (rule fraction_double [OF lt(1)])
  have fg: "0 \<le> g \<and> g \<le> 1 \<and> round (g * 255) = int (16 * d2 + d3) \<and>
            round (to_double (g * 255)) = int (16 * d2 + d3)"
    unfolding g_def by (rule fraction_double [OF lt(2)])
  have fb: "0 \<le> b \<and> b \<le> 1 \<and> round (b * 255) = int (16 * d4 + d5) \<and>
            round (to_double (b * 255)) = int (16 * d4 + d5)"
    unfolding b_def by (rule fraction_double [OF lt(3)])
  show ?thesis
    using bg fr fg fb unfolding th by blast
qed

text \<open>The default colour of i3lock, a light grey: each fraction is the double nearest to 163/255.\<close>

theorem colour_round_trip_witness:
  "length ''a3a3a3'' = 6 \<and> list_all (\<lambda>ch. hex_digit ch \<noteq> None) ''a3a3a3'' \<and>
   to_double (163 / 255) = 1439385763257629 / 2251799813685248 \<and>
   background_rgb ''a3a3a3'' = (to_double (163 / 255), to_double (163 / 255), to_double (163 / 255)) \<and>
   int (16 * the (hex_digit (''a3a3a3'' ! 0)) + the (hex_digit (''a3a3a3'' ! 1))) = 163 \<and>
   (\<exists>r g b. background_rgb ''a3a3a3'' = (r, g, b) \<and> 0 \<le> r \<and> r \<le> 1 \<and>
      round (r * 255) = int (16 * the (hex_digit (''a3a3a3'' ! 0)) + the (hex_digit (''a3a3a3'' ! 1))))"
proof -
  have l: "length ''a3a3a3'' = 6" by simp
  have d: "hex_digit CHR ''a'' = Some 10" "hex_digit CHR ''3'' = Some 3"
    by (simp_all add: hex_digit_def)
  have h: "\<forall>ch \<in> set ''a3a3a3''. hex_digit ch \<noteq> None"
    by (simp add: d)
  have la: "list_all (\<lambda>ch. hex_digit ch \<noteq> None) ''a3a3a3''"
    by (simp add: d)
  have v: "int (16 * the (hex_digit (''a3a3a3'' ! 0)) + the (hex_digit (''a3a3a3'' ! 1))) = 163"
    by (simp add: d)
  have n: "to_double (163 / 255) = 1439385763257629 / 2251799813685248"
    by code_simp
  have "rgb16 ''a3a3a3'' = (16 * 10 + 3, 16 * 10 + 3, 16 * 10 + 3)"
    by (rule rgb16_hex [OF l]) (simp_all add: d)
  then have e: "background_rgb ''a3a3a3''
                  = (to_double (163 / 255), to_double (163 / 255), to_double (163 / 255))"
    by (simp add: background_rgb_def)
  from colour_round_trip [OF l h] l la v e n show ?thesis by auto
qed

end
